theory Spec2Isabelle
  imports Main "HOL-Library.AList" "HOL-Library.Sublist"
begin

section \<open>The file tracker of \<^verbatim>\<open>server/src/libs/file-tracker.ts\<close>\<close>

text \<open>
  The class \<^verbatim>\<open>FileTracker\<close> keeps a \<^verbatim>\<open>Map\<close> from file paths to tracking records, a set
  of ignored paths and two flags. The embedding passes the tracker's fields around as a
  record and returns the updated record.

  \<^item> The JavaScript \<^verbatim>\<open>Map\<close> iterates in insertion order and holds a key once. It is an
    association list: \<^verbatim>\<open>get\<close> is \<open>map_of\<close>, \<^verbatim>\<open>set\<close> is \<open>AList.update\<close> (in place for a
    key that is there, at the end for a new one), \<^verbatim>\<open>delete\<close> is \<open>AList.delete\<close>.
  \<^item> The source hands a record around by reference together with its path. At every call
    site the record is the one stored under that path, so the functions below take the
    path only and read and write the record in the map.
  \<^item> The four hooks \<^verbatim>\<open>onTrack\<close>, \<^verbatim>\<open>onExpired\<close>, \<^verbatim>\<open>onUpdate\<close>, \<^verbatim>\<open>onUnTrack\<close> are empty in
    this class. Their calls, the calls of \<^verbatim>\<open>console.log\<close> and the calls of the file
    system are appended to a trace, which is how a theorem speaks about a hook that fires
    or a disk read that happens.
  \<^item> What the class imports (\<^verbatim>\<open>path\<close>, \<^verbatim>\<open>minimatch\<close>, \<^verbatim>\<open>Files.uriToFilePath\<close>, \<^verbatim>\<open>Uri.file\<close>,
    and \<^verbatim>\<open>readText\<close>, \<^verbatim>\<open>glob\<close>, \<^verbatim>\<open>getStat\<close> of \<^verbatim>\<open>./util\<close>) is a parameter, the record
    \<open>env\<close>.
  \<^item> An \<^verbatim>\<open>async\<close> function runs synchronously up to its first \<^verbatim>\<open>await\<close> of something
    unfinished. The reload (\<^verbatim>\<open>doUpdate\<close>, \<^verbatim>\<open>getUpdatePromise\<close>) is modelled piece by piece:
    one function for the synchronous part of the call and one for each continuation, the
    promise in flight being the value of the field \<^verbatim>\<open>updatePromise\<close>. When the promise
    resolves, the calls of \<^verbatim>\<open>doUpdate\<close> that await it go on in the same run of the job queue,
    before any other event is handled; the model makes this one step. The awaits of
    \<^verbatim>\<open>getStat\<close> and \<^verbatim>\<open>glob\<close> are answered at once from \<open>env\<close>.
\<close>

subsection \<open>Data\<close>

text \<open>\<^verbatim>\<open>TextDocument\<close> of the language server library: the four values \<^verbatim>\<open>TextDocument.create\<close>
  takes.\<close>

record TextDocument =
  doc_uri :: string
  doc_languageId :: string
  doc_version :: int
  doc_text :: string

text \<open>
  The promise \<^verbatim>\<open>getUpdatePromise\<close> returns, while it is pending. It waits either for
  \<^verbatim>\<open>loadDocumentFromFilePath\<close> or for the hook \<^verbatim>\<open>onUpdate\<close>; in the second case it remembers
  the local \<^verbatim>\<open>hasDocumentBefore\<close>. The number counts the calls of \<^verbatim>\<open>doUpdate\<close> that found
  the promise in the field and wait for it too, besides the call that created it.
\<close>

datatype UpdatePromise =
  AwaitLoad nat
| AwaitOnUpdate bool nat

record TrackMapItem =
  document :: "TextDocument option"
  version :: int
  opened :: bool
  fresh :: bool
  updatePromise :: "UpdatePromise option"

record FileTrackerOptions =
  opt_includeGlobPattern :: string
  opt_excludeGlobPattern :: "string option"
  opt_updateImmediately :: "bool option"
  opt_startPath :: "string option"

datatype event =
  ReadText string
| GetStat string
| Glob string
| ConsoleLog string
| ConsoleLogError string
| ConsoleLogUpdated nat
| OnTrack string
| OnExpired string
| OnUpdate string
| OnUnTrack string

text \<open>A \<^verbatim>\<open>Minimatch\<close> object is given by its pattern: the two matcher fields hold the
  pattern, and \<open>minimatch env\<close> matches a pattern against a path.\<close>

record FileTracker =
  includeGlobPattern :: string
  excludeGlobPattern :: "string option"
  updateImmediately :: bool
  startPath :: "string option"
  includeMatcher :: string
  excludeMatcher :: "string option"
  map_items :: "(string \<times> TrackMapItem) list"
  ignoredFilePaths :: "string set"
  allFresh :: bool
  startPathLoaded :: bool
  trace :: "event list"

datatype stat = IsFile | IsDirectory | IsOther

datatype FileChangeType = Created | Changed | Deleted

text \<open>What the constructor throws: its own error for an absolute include pattern, or the
  \<^verbatim>\<open>TypeError\<close> of \<^verbatim>\<open>new minimatch.Minimatch\<close> for a pattern the library refuses.\<close>

datatype error = AbsoluteIncludePattern string | MinimatchTypeError string

record env =
  isAbsolute :: "string \<Rightarrow> bool"
  normalize :: "string \<Rightarrow> string"
  extname :: "string \<Rightarrow> string"
  toLowerCase :: "string \<Rightarrow> string"
  minimatchAccepts :: "string \<Rightarrow> bool"
  minimatch :: "string \<Rightarrow> string \<Rightarrow> bool"
  uriToFilePath :: "string \<Rightarrow> string option"
  fileUri :: "string \<Rightarrow> string"
  getStat :: "string \<Rightarrow> stat"
  glob :: "string \<Rightarrow> string option \<Rightarrow> string list"
  readText :: "string \<Rightarrow> string + string"

subsection \<open>JavaScript helpers\<close>

text \<open>\<^verbatim>\<open>s.startsWith(d)\<close>.\<close>

definition startsWith :: "string \<Rightarrow> string \<Rightarrow> bool" where
  "startsWith s d = prefix d s"

text \<open>Truthiness of an optional string: \<^verbatim>\<open>undefined\<close> and the empty string are falsy.\<close>

definition truthy :: "string option \<Rightarrow> bool" where
  "truthy x = (case x of None \<Rightarrow> False | Some v \<Rightarrow> v \<noteq> [])"

definition updateItem :: "FileTracker \<Rightarrow> string \<Rightarrow> (TrackMapItem \<Rightarrow> TrackMapItem) \<Rightarrow> FileTracker" where
  "updateItem this filePath f = this\<lparr>map_items := AList.map_entry filePath f (map_items this)\<rparr>"

definition emit :: "FileTracker \<Rightarrow> event list \<Rightarrow> FileTracker" where
  "emit this es = this\<lparr>trace := trace this @ es\<rparr>"

subsection \<open>Path filter\<close>

definition canTrackFilePath :: "env \<Rightarrow> FileTracker \<Rightarrow> string \<Rightarrow> bool" where
  "canTrackFilePath e this filePath =
     (if \<not> minimatch e (includeMatcher this) filePath then False
      else if (case excludeMatcher this of None \<Rightarrow> False | Some m \<Rightarrow> minimatch e m filePath)
        then False
      else True)"

definition canTrackPath :: "env \<Rightarrow> FileTracker \<Rightarrow> string \<Rightarrow> bool" where
  "canTrackPath e this fileOrFolderPath =
     (if (case excludeMatcher this of None \<Rightarrow> False | Some m \<Rightarrow> minimatch e m fileOrFolderPath)
        then False
      else True)"

definition has :: "FileTracker \<Rightarrow> string \<Rightarrow> bool" where
  "has this filePath = (map_of (map_items this) filePath \<noteq> None)"

subsection \<open>Reload of one record\<close>

text \<open>
  \<^verbatim>\<open>loadDocumentFromFilePath\<close>, from the answer of \<^verbatim>\<open>readText\<close> on: the document, or
  \<^verbatim>\<open>null\<close> with the error logged. The call of \<^verbatim>\<open>readText\<close> itself is made when
  \<^verbatim>\<open>getUpdatePromise\<close> calls this function, and is recorded there.
\<close>

definition loadDocumentFromFilePath :: "env \<Rightarrow> string \<Rightarrow> TextDocument option \<times> event list" where
  "loadDocumentFromFilePath e filePath =
     (let languageId = toLowerCase e (drop 1 (extname e filePath));
          uri = fileUri e filePath
      in case readText e filePath of
           Inr text \<Rightarrow>
             (Some \<lparr>doc_uri = uri, doc_languageId = languageId, doc_version = 1, doc_text = text\<rparr>, [])
         | Inl err \<Rightarrow> (None, [ConsoleLogError err]))"

text \<open>
  \<^verbatim>\<open>getUpdatePromise\<close>, the synchronous part. Without a document of an opened file it calls
  \<^verbatim>\<open>loadDocumentFromFilePath\<close>, which starts the disk read, and waits. With one it sets
  \<^verbatim>\<open>fresh\<close>, calls the hook and waits for it. The result is the new promise.
\<close>

definition getUpdatePromise :: "FileTracker \<Rightarrow> string \<Rightarrow> FileTracker \<times> UpdatePromise" where
  "getUpdatePromise this filePath =
     (case map_of (map_items this) filePath of
        None \<Rightarrow> (this, AwaitLoad 0)
      | Some item \<Rightarrow>
          (let hasDocumentBefore = (opened item \<and> document item \<noteq> None)
           in if \<not> hasDocumentBefore then (emit this [ReadText filePath], AwaitLoad 0)
              else (emit (updateItem this filePath (\<lambda>i. i\<lparr>fresh := True\<rparr>)) [OnUpdate filePath],
                    AwaitOnUpdate True 0)))"

text \<open>
  \<^verbatim>\<open>doUpdate\<close>, the synchronous part, up to \<^verbatim>\<open>await item.updatePromise\<close>. The boolean tells
  whether the call now waits for the promise of the record (it will return \<^verbatim>\<open>true\<close>) or
  has returned \<^verbatim>\<open>false\<close>. The source is never called for a path without a record; the
  model leaves the tracker as it is there.
\<close>

definition doUpdate :: "FileTracker \<Rightarrow> string \<Rightarrow> FileTracker \<times> bool" where
  "doUpdate this filePath =
     (if filePath \<notin> ignoredFilePaths this then
        (case map_of (map_items this) filePath of
           None \<Rightarrow> (this, True)
         | Some item \<Rightarrow>
             (case updatePromise item of
                Some (AwaitLoad n) \<Rightarrow>
                  (updateItem this filePath (\<lambda>i. i\<lparr>updatePromise := Some (AwaitLoad (Suc n))\<rparr>), True)
              | Some (AwaitOnUpdate h n) \<Rightarrow>
                  (updateItem this filePath (\<lambda>i. i\<lparr>updatePromise := Some (AwaitOnUpdate h (Suc n))\<rparr>), True)
              | None \<Rightarrow>
                  (let (this1, p) = getUpdatePromise this filePath
                   in (updateItem this1 filePath (\<lambda>i. i\<lparr>updatePromise := Some p\<rparr>), True))))
      else (this, False))"

text \<open>
  \<^verbatim>\<open>getUpdatePromise\<close> after \<^verbatim>\<open>await this.loadDocumentFromFilePath(filePath)\<close>: the document
  is stored, the version taken from it when there is one, \<^verbatim>\<open>fresh\<close> is set and the hook
  called.

  The source goes on with the item object it was called with; the model goes on with the
  record stored under the path. The two are the same object as long as \<^verbatim>\<open>unTrackPath\<close> has
  not removed the record since the call. A reload whose record was removed meanwhile (the
  source still sets \<^verbatim>\<open>fresh\<close> on the detached object and calls \<^verbatim>\<open>onUpdate\<close>) is outside the
  model: every theorem below that lets a reload go on does so with no event between the
  request and the end of the promise, and with the record in the map.
\<close>

definition getUpdatePromise_loaded :: "env \<Rightarrow> FileTracker \<Rightarrow> string \<Rightarrow> FileTracker" where
  "getUpdatePromise_loaded e this filePath =
     (case map_of (map_items this) filePath of
        None \<Rightarrow> this
      | Some item \<Rightarrow>
          (case updatePromise item of
             Some (AwaitLoad n) \<Rightarrow>
               (let (doc, errs) = loadDocumentFromFilePath e filePath;
                    this1 = emit this errs;
                    this2 = updateItem this1 filePath (\<lambda>i. i\<lparr>document := doc\<rparr>);
                    this3 = (case doc of
                               None \<Rightarrow> this2
                             | Some d \<Rightarrow> updateItem this2 filePath (\<lambda>i. i\<lparr>version := doc_version d\<rparr>));
                    this4 = updateItem this3 filePath (\<lambda>i. i\<lparr>fresh := True\<rparr>);
                    this5 = emit this4 [OnUpdate filePath]
                in updateItem this5 filePath (\<lambda>i. i\<lparr>updatePromise := Some (AwaitOnUpdate False n)\<rparr>))
           | _ \<Rightarrow> this))"

text \<open>
  \<^verbatim>\<open>getUpdatePromise\<close> after \<^verbatim>\<open>await this.onUpdate(filePath, item)\<close>: it logs and the promise
  resolves. Every call of \<^verbatim>\<open>doUpdate\<close> that waits for it then goes on, sets
  \<^verbatim>\<open>item.updatePromise = null\<close> and returns \<^verbatim>\<open>true\<close>; the number returned counts these
  calls.
\<close>

definition getUpdatePromise_updated :: "FileTracker \<Rightarrow> string \<Rightarrow> FileTracker \<times> nat" where
  "getUpdatePromise_updated this filePath =
     (case map_of (map_items this) filePath of
        None \<Rightarrow> (this, 0)
      | Some item \<Rightarrow>
          (case updatePromise item of
             Some (AwaitOnUpdate hasDocumentBefore n) \<Rightarrow>
               (let this1 = emit this
                      [ConsoleLog (filePath @ '' loaded from '' @
                         (if hasDocumentBefore then ''document'' else ''file''))]
                in (updateItem this1 filePath (\<lambda>i. i\<lparr>updatePromise := None\<rparr>), Suc n))
           | _ \<Rightarrow> (this, 0)))"

text \<open>The promise of the record at \<open>filePath\<close> runs to its end: what a caller that awaits
  it sees when nothing else happens meanwhile.\<close>

definition awaitUpdatePromise :: "env \<Rightarrow> FileTracker \<Rightarrow> string \<Rightarrow> FileTracker" where
  "awaitUpdatePromise e this filePath =
     fst (getUpdatePromise_updated (getUpdatePromise_loaded e this filePath) filePath)"

subsection \<open>Tracking\<close>

definition handleTrackFollowed :: "FileTracker \<Rightarrow> string \<Rightarrow> FileTracker" where
  "handleTrackFollowed this filePath =
     (if updateImmediately this then fst (doUpdate this filePath)
      else emit (this\<lparr>allFresh := False\<rparr>) [ConsoleLog (filePath @ '' tracked''), OnTrack filePath])"

definition trackFile :: "FileTracker \<Rightarrow> string \<Rightarrow> FileTracker" where
  "trackFile this filePath =
     (case map_of (map_items this) filePath of
        Some item \<Rightarrow> this
      | None \<Rightarrow>
          (let item = \<lparr>document = None, version = 0, opened = False, fresh = False,
                       updatePromise = None\<rparr>;
               this1 = this\<lparr>map_items := AList.update filePath item (map_items this)\<rparr>
           in handleTrackFollowed this1 filePath))"

definition getFilePathsInFolder :: "env \<Rightarrow> FileTracker \<Rightarrow> string \<Rightarrow> string list" where
  "getFilePathsInFolder e this folderPath =
     (let cssFilePaths =
            glob e (map (\<lambda>c. if c = CHR 0x5C then CHR ''/'' else c) folderPath @ ''/'' @
                      includeGlobPattern this)
              (if truthy (excludeGlobPattern this) then excludeGlobPattern this else None)
      in map (normalize e) cssFilePaths)"

definition trackFolder :: "env \<Rightarrow> FileTracker \<Rightarrow> string \<Rightarrow> FileTracker" where
  "trackFolder e this folderPath =
     foldl trackFile (emit this [Glob folderPath]) (getFilePathsInFolder e this folderPath)"

definition trackPath :: "env \<Rightarrow> FileTracker \<Rightarrow> string \<Rightarrow> FileTracker" where
  "trackPath e this fileOrFolderPath =
     (if \<not> canTrackPath e this fileOrFolderPath then this
      else
        (let this1 = emit this [GetStat fileOrFolderPath]
         in case getStat e fileOrFolderPath of
              IsDirectory \<Rightarrow> trackFolder e this1 fileOrFolderPath
            | IsFile \<Rightarrow>
                (if canTrackFilePath e this1 fileOrFolderPath then trackFile this1 fileOrFolderPath
                 else this1)
            | IsOther \<Rightarrow> this1))"

definition loadStartPath :: "env \<Rightarrow> FileTracker \<Rightarrow> FileTracker" where
  "loadStartPath e this =
     (case startPath this of
        None \<Rightarrow> this\<lparr>startPathLoaded := True\<rparr>
      | Some p \<Rightarrow> (trackPath e this p)\<lparr>startPathLoaded := True\<rparr>)"

text \<open>
  The constructor. It throws for an absolute include pattern. The two calls of
  \<^verbatim>\<open>new minimatch.Minimatch\<close> are not guarded: when the library refuses a pattern
  (\<open>minimatchAccepts\<close> is false; the library does so for a pattern longer than 65536
  characters) its \<^verbatim>\<open>TypeError\<close> leaves the constructor, for the include pattern first. With a
  start path and \<^verbatim>\<open>updateImmediately\<close> the constructor calls \<^verbatim>\<open>loadStartPath\<close> without awaiting
  it: that call runs up to its \<^verbatim>\<open>await getStat\<close> and touches no field; the scan it started is
  a later \<open>loadStartPath\<close> step.
\<close>

definition constructor :: "env \<Rightarrow> FileTrackerOptions \<Rightarrow> error + FileTracker" where
  "constructor e options =
     (if opt_includeGlobPattern options \<noteq> [] \<and> isAbsolute e (opt_includeGlobPattern options)
      then Inl (AbsoluteIncludePattern (opt_includeGlobPattern options))
      else
        (let include = (if opt_includeGlobPattern options \<noteq> [] then opt_includeGlobPattern options
                        else ''**/*'');
             exclude = opt_excludeGlobPattern options;
             matcher = (if truthy exclude then exclude else None);
             loaded = (\<not> truthy (opt_startPath options));
             this = \<lparr>includeGlobPattern = include,
                     excludeGlobPattern = exclude,
                     updateImmediately = (case opt_updateImmediately options of None \<Rightarrow> False | Some b \<Rightarrow> b),
                     startPath = opt_startPath options,
                     includeMatcher = include,
                     excludeMatcher = matcher,
                     map_items = [],
                     ignoredFilePaths = {},
                     allFresh = loaded,
                     startPathLoaded = loaded,
                     trace = []\<rparr>;
             constructed =
               (case startPath this of
                  None \<Rightarrow> this
                | Some p \<Rightarrow>
                    (if p \<noteq> [] \<and> updateImmediately this \<and> canTrackPath e this p
                     then emit this [GetStat p] else this))
         in if \<not> minimatchAccepts e include then Inl (MinimatchTypeError include)
            else case matcher of
                   None \<Rightarrow> Inr constructed
                 | Some x \<Rightarrow>
                     (if minimatchAccepts e x then Inr constructed
                      else Inl (MinimatchTypeError x))))"

subsection \<open>Ignoring\<close>

definition ignore :: "FileTracker \<Rightarrow> string \<Rightarrow> FileTracker" where
  "ignore this filePath =
     emit (this\<lparr>ignoredFilePaths := insert filePath (ignoredFilePaths this)\<rparr>)
       [ConsoleLog (filePath @ '' ignored'')]"

definition notIgnore :: "FileTracker \<Rightarrow> string \<Rightarrow> FileTracker" where
  "notIgnore this filePath =
     emit (this\<lparr>ignoredFilePaths := ignoredFilePaths this - {filePath}\<rparr>)
       [ConsoleLog (filePath @ '' restored from ignored'')]"

definition hasIgnored :: "FileTracker \<Rightarrow> string \<Rightarrow> bool" where
  "hasIgnored this filePath = (filePath \<in> ignoredFilePaths this)"

subsection \<open>Expiry, opened files, removal\<close>

definition handleExpired :: "FileTracker \<Rightarrow> string \<Rightarrow> FileTracker" where
  "handleExpired this filePath =
     (case map_of (map_items this) filePath of
        None \<Rightarrow> this
      | Some item \<Rightarrow>
          (if \<not> opened item \<and> updateImmediately this then fst (doUpdate this filePath)
           else emit ((updateItem this filePath (\<lambda>i. i\<lparr>fresh := False\<rparr>))\<lparr>allFresh := False\<rparr>)
                  [ConsoleLog (filePath @ '' expired''), OnExpired filePath]))"

definition reTrackFile :: "FileTracker \<Rightarrow> string \<Rightarrow> FileTracker" where
  "reTrackFile this filePath =
     (case map_of (map_items this) filePath of
        Some item \<Rightarrow>
          (if opened item then
             (if \<not> fresh item \<and> updateImmediately this then fst (doUpdate this filePath) else this)
           else handleExpired
                  (updateItem this filePath (\<lambda>i. i\<lparr>document := None, version := 0\<rparr>)) filePath)
      | None \<Rightarrow> trackFile this filePath)"

definition trackOpenedFile :: "FileTracker \<Rightarrow> string \<Rightarrow> TextDocument \<Rightarrow> FileTracker" where
  "trackOpenedFile this filePath doc =
     (case map_of (map_items this) filePath of
        Some item \<Rightarrow>
          (let changed = (doc_version doc > version item);
               this1 = updateItem this filePath
                         (\<lambda>i. i\<lparr>document := Some doc, version := doc_version doc, opened := True\<rparr>)
           in if changed \<and> fresh item then handleExpired this1 filePath else this1)
      | None \<Rightarrow>
          (let item = \<lparr>document = Some doc, version = doc_version doc, opened = True, fresh = False,
                       updatePromise = None\<rparr>;
               this1 = this\<lparr>map_items := AList.update filePath item (map_items this)\<rparr>
           in handleTrackFollowed this1 filePath))"

definition unTrackOpenedFile :: "FileTracker \<Rightarrow> string \<Rightarrow> FileTracker" where
  "unTrackOpenedFile this filePath =
     (case map_of (map_items this) filePath of
        Some item \<Rightarrow>
          emit (updateItem this filePath (\<lambda>i. i\<lparr>document := None, version := 1, opened := False\<rparr>))
            [ConsoleLog (filePath @ '' closed'')]
      | None \<Rightarrow> this)"

text \<open>The body of the loop of \<^verbatim>\<open>unTrackPath\<close>, for one key of the map.\<close>

definition unTrackPath_step :: "string \<Rightarrow> FileTracker \<Rightarrow> string \<Rightarrow> FileTracker" where
  "unTrackPath_step deletedPath this filePath =
     (if startsWith filePath deletedPath then
        (case map_of (map_items this) filePath of
           Some item \<Rightarrow>
             emit (this\<lparr>map_items := AList.delete filePath (map_items this),
                        ignoredFilePaths := ignoredFilePaths this - {filePath}\<rparr>)
               [ConsoleLog (filePath @ '' removed''), OnUnTrack filePath]
         | None \<Rightarrow> this)
      else this)"

definition unTrackPath :: "FileTracker \<Rightarrow> string \<Rightarrow> FileTracker" where
  "unTrackPath this deletedPath =
     (foldl (unTrackPath_step deletedPath) this (map fst (map_items this)))\<lparr>allFresh := False\<rparr>"

subsection \<open>The freshness barrier\<close>

text \<open>The body of the loop of \<^verbatim>\<open>beFresh\<close>, for one key: the tracker and the results of the
  calls of \<^verbatim>\<open>doUpdate\<close> made so far, each with its path.\<close>

definition beFresh_step ::
  "FileTracker \<times> (string \<times> bool) list \<Rightarrow> string \<Rightarrow> FileTracker \<times> (string \<times> bool) list" where
  "beFresh_step acc filePath =
     (case map_of (map_items (fst acc)) filePath of
        None \<Rightarrow> acc
      | Some item \<Rightarrow>
          (if \<not> fresh item then
             (let (this1, r) = doUpdate (fst acc) filePath in (this1, snd acc @ [(filePath, r)]))
           else acc))"

text \<open>
  \<^verbatim>\<open>beFresh\<close>, run to its end with nothing else happening meanwhile: the loop starts or
  joins the reloads, \<^verbatim>\<open>Promise.all\<close> waits for those that did not return \<^verbatim>\<open>false\<close> at once,
  in the order of the map. The time in the log line is left out.
\<close>

definition beFresh :: "env \<Rightarrow> FileTracker \<Rightarrow> FileTracker" where
  "beFresh e this =
     (if \<not> allFresh this then
        (let this1 = (if \<not> startPathLoaded this then loadStartPath e this else this);
             (this2, promises) = foldl beFresh_step (this1, []) (map fst (map_items this1));
             this3 = foldl (awaitUpdatePromise e) this2 (map fst (filter snd promises));
             updatedCount = length (filter snd promises);
             this4 = (if updatedCount > 0 then emit this3 [ConsoleLogUpdated updatedCount] else this3)
         in this4\<lparr>allFresh := True\<rparr>)
      else this)"

subsection \<open>Event handlers\<close>

definition onDocumentOpenOrContentChanged :: "env \<Rightarrow> FileTracker \<Rightarrow> TextDocument \<Rightarrow> FileTracker" where
  "onDocumentOpenOrContentChanged e this doc =
     (case uriToFilePath e (doc_uri doc) of
        None \<Rightarrow> this
      | Some filePath \<Rightarrow>
          (if filePath \<noteq> [] \<and> canTrackFilePath e this filePath
           then trackOpenedFile this filePath doc else this))"

definition onDocumentSaved :: "env \<Rightarrow> FileTracker \<Rightarrow> TextDocument \<Rightarrow> FileTracker" where
  "onDocumentSaved e this doc =
     (case uriToFilePath e (doc_uri doc) of
        None \<Rightarrow> this
      | Some filePath \<Rightarrow>
          (case map_of (map_items this) filePath of
             None \<Rightarrow> this
           | Some item \<Rightarrow>
               (if \<not> fresh item \<and> updateImmediately this then fst (doUpdate this filePath)
                else this)))"

definition onDocumentClosed :: "env \<Rightarrow> FileTracker \<Rightarrow> TextDocument \<Rightarrow> FileTracker" where
  "onDocumentClosed e this doc =
     (case uriToFilePath e (doc_uri doc) of
        None \<Rightarrow> this
      | Some filePath \<Rightarrow> unTrackOpenedFile this filePath)"

definition onWatchedPathChanged_step ::
  "env \<Rightarrow> FileTracker \<Rightarrow> string \<times> FileChangeType \<Rightarrow> FileTracker" where
  "onWatchedPathChanged_step e this change =
     (case uriToFilePath e (fst change) of
        None \<Rightarrow> this
      | Some fileOrFolderPath \<Rightarrow>
          (if fileOrFolderPath = [] then this
           else case snd change of
                  Created \<Rightarrow> trackPath e this fileOrFolderPath
                | Changed \<Rightarrow>
                    (let this1 = emit this [GetStat fileOrFolderPath]
                     in if getStat e fileOrFolderPath = IsFile
                        then (if canTrackFilePath e this1 fileOrFolderPath
                              then reTrackFile this1 fileOrFolderPath else this1)
                        else this1)
                | Deleted \<Rightarrow> unTrackPath this fileOrFolderPath))"

definition onWatchedPathChanged ::
  "env \<Rightarrow> FileTracker \<Rightarrow> (string \<times> FileChangeType) list \<Rightarrow> FileTracker" where
  "onWatchedPathChanged e this changes = foldl (onWatchedPathChanged_step e) this changes"

subsection \<open>Example inputs\<close>

text \<open>\<^verbatim>\<open>path.isAbsolute\<close> on a POSIX system.\<close>

definition posix_isAbsolute :: "string \<Rightarrow> bool" where
  "posix_isAbsolute p = (case p of [] \<Rightarrow> False | c # _ \<Rightarrow> c = CHR ''/'')"

text \<open>An environment in which every path is a file that matches every pattern and reads as
  \<^verbatim>\<open>a{}\<close>, and one in which every disk read fails. \<^verbatim>\<open>Minimatch\<close> refuses a pattern longer than
  65536 characters, as the library does.\<close>

definition example_env :: env where
  "example_env =
     \<lparr>isAbsolute = posix_isAbsolute,
      normalize = (\<lambda>p. p),
      extname = (\<lambda>p. ''.css''),
      toLowerCase = (\<lambda>s. s),
      minimatchAccepts = (\<lambda>pattern. length pattern \<le> 65536),
      minimatch = (\<lambda>pattern p. True),
      uriToFilePath = (\<lambda>u. if prefix ''file://'' u then Some (drop 7 u) else None),
      fileUri = (\<lambda>p. ''file://'' @ p),
      getStat = (\<lambda>p. IsFile),
      glob = (\<lambda>pattern ign. []),
      readText = (\<lambda>p. Inr ''a{}'')\<rparr>"

definition failing_env :: env where
  "failing_env = example_env\<lparr>readText := (\<lambda>p. Inl ''ENOENT'')\<rparr>"

definition pull_options :: FileTrackerOptions where
  "pull_options =
     \<lparr>opt_includeGlobPattern = ''**/*.css'', opt_excludeGlobPattern = None,
      opt_updateImmediately = None, opt_startPath = None\<rparr>"

text \<open>A relative include pattern of 65537 characters.\<close>

definition long_pattern :: string where
  "long_pattern = replicate 65537 (CHR ''a'')"

text \<open>The tracker these options construct, and the same tracker with one fresh record
  loaded from disk.\<close>

definition pull_tracker :: FileTracker where
  "pull_tracker =
     \<lparr>includeGlobPattern = ''**/*.css'', excludeGlobPattern = None, updateImmediately = False,
      startPath = None, includeMatcher = ''**/*.css'', excludeMatcher = None, map_items = [],
      ignoredFilePaths = {}, allFresh = True, startPathLoaded = True, trace = []\<rparr>"

definition fresh_item :: TrackMapItem where
  "fresh_item =
     \<lparr>document = Some \<lparr>doc_uri = ''file:///x.css'', doc_languageId = ''css'', doc_version = 1,
                       doc_text = ''a{}''\<rparr>,
      version = 1, opened = False, fresh = True, updatePromise = None\<rparr>"

definition x_tracker :: FileTracker where
  "x_tracker = pull_tracker\<lparr>map_items := [(''/x.css'', fresh_item)]\<rparr>"

definition buffer1 :: TextDocument where
  "buffer1 = \<lparr>doc_uri = ''file:///x.css'', doc_languageId = ''css'', doc_version = 1,
              doc_text = ''a{} b{}''\<rparr>"

definition buffer2 :: TextDocument where
  "buffer2 = \<lparr>doc_uri = ''file:///x.css'', doc_languageId = ''css'', doc_version = 2,
              doc_text = ''a{} b{} c{}''\<rparr>"

text \<open>The record of \<open>x_tracker\<close> with \<open>buffer2\<close> attached.\<close>

definition opened_item :: TrackMapItem where
  "opened_item = fresh_item\<lparr>document := Some buffer2, version := 2, opened := True\<rparr>"

definition opened_tracker :: FileTracker where
  "opened_tracker = pull_tracker\<lparr>map_items := [(''/x.css'', opened_item)]\<rparr>"

text \<open>The three paths of the directory example and one outside the directory; a tracker
  with a sibling of the directory \<^verbatim>\<open>/a\<close>.\<close>

definition abc_tracker :: FileTracker where
  "abc_tracker =
     pull_tracker\<lparr>map_items := [(''/a/b.css'', fresh_item), (''/a/c.css'', fresh_item),
                               (''/b/a.css'', fresh_item), (''/a/sub/d.css'', fresh_item)],
                  ignoredFilePaths := {''/a/c.css'', ''/b/a.css''}\<rparr>"

definition sibling_tracker :: FileTracker where
  "sibling_tracker =
     pull_tracker\<lparr>map_items := [(''/a/b.css'', fresh_item), (''/ab.css'', fresh_item),
                               (''/b/a.css'', fresh_item)]\<rparr>"

subsection \<open>What a reload does to one record\<close>

text \<open>
  The functions of this subsection are not in the source. They say, for one record, what
  the pieces of the reload do to it and which events they add to the trace; the lemmas
  \<open>doUpdate_eq\<close> and \<open>awaitUpdatePromise_eq\<close> below prove that the model of the source does
  exactly this. \<open>request_item\<close> is the synchronous part of \<^verbatim>\<open>doUpdate\<close> on a path that is not
  ignored, \<open>settle_item\<close> the rest of the reload up to the end of the promise.
\<close>

definition request_item :: "TrackMapItem \<Rightarrow> TrackMapItem" where
  "request_item item =
     (case updatePromise item of
        Some (AwaitLoad n) \<Rightarrow> item\<lparr>updatePromise := Some (AwaitLoad (Suc n))\<rparr>
      | Some (AwaitOnUpdate h n) \<Rightarrow> item\<lparr>updatePromise := Some (AwaitOnUpdate h (Suc n))\<rparr>
      | None \<Rightarrow>
          (if opened item \<and> document item \<noteq> None
           then item\<lparr>fresh := True, updatePromise := Some (AwaitOnUpdate True 0)\<rparr>
           else item\<lparr>updatePromise := Some (AwaitLoad 0)\<rparr>))"

definition request_events :: "string \<Rightarrow> TrackMapItem \<Rightarrow> event list" where
  "request_events filePath item =
     (case updatePromise item of
        Some p \<Rightarrow> []
      | None \<Rightarrow> (if opened item \<and> document item \<noteq> None then [OnUpdate filePath]
                 else [ReadText filePath]))"

definition settle_item :: "env \<Rightarrow> string \<Rightarrow> TrackMapItem \<Rightarrow> TrackMapItem" where
  "settle_item e filePath item =
     (case updatePromise item of
        None \<Rightarrow> item
      | Some (AwaitOnUpdate h n) \<Rightarrow> item\<lparr>updatePromise := None\<rparr>
      | Some (AwaitLoad n) \<Rightarrow>
          (case fst (loadDocumentFromFilePath e filePath) of
             None \<Rightarrow> item\<lparr>document := None, fresh := True, updatePromise := None\<rparr>
           | Some d \<Rightarrow> item\<lparr>document := Some d, version := doc_version d, fresh := True,
                             updatePromise := None\<rparr>))"

definition settle_events :: "env \<Rightarrow> string \<Rightarrow> TrackMapItem \<Rightarrow> event list" where
  "settle_events e filePath item =
     (case updatePromise item of
        None \<Rightarrow> []
      | Some (AwaitOnUpdate h n) \<Rightarrow>
          [ConsoleLog (filePath @ '' loaded from '' @ (if h then ''document'' else ''file''))]
      | Some (AwaitLoad n) \<Rightarrow>
          snd (loadDocumentFromFilePath e filePath) @
          [OnUpdate filePath, ConsoleLog (filePath @ '' loaded from file'')])"

text \<open>The continuation after the disk read alone, up to the pending call of \<^verbatim>\<open>onUpdate\<close>.\<close>

definition loaded_item :: "env \<Rightarrow> string \<Rightarrow> TrackMapItem \<Rightarrow> TrackMapItem" where
  "loaded_item e filePath item =
     (case updatePromise item of
        Some (AwaitLoad n) \<Rightarrow>
          (case fst (loadDocumentFromFilePath e filePath) of
             None \<Rightarrow> item\<lparr>document := None, fresh := True,
                           updatePromise := Some (AwaitOnUpdate False n)\<rparr>
           | Some d \<Rightarrow> item\<lparr>document := Some d, version := doc_version d, fresh := True,
                             updatePromise := Some (AwaitOnUpdate False n)\<rparr>)
      | _ \<Rightarrow> item)"

definition loaded_events :: "env \<Rightarrow> string \<Rightarrow> TrackMapItem \<Rightarrow> event list" where
  "loaded_events e filePath item =
     (case updatePromise item of
        Some (AwaitLoad n) \<Rightarrow> snd (loadDocumentFromFilePath e filePath) @ [OnUpdate filePath]
      | _ \<Rightarrow> [])"

text \<open>A record that the loop of \<^verbatim>\<open>beFresh\<close> passes to \<^verbatim>\<open>doUpdate\<close>, and what \<^verbatim>\<open>beFresh\<close>
  makes of a record: nothing for a fresh or an ignored one, a request and its completion
  for the others.\<close>

definition stale :: "FileTracker \<Rightarrow> string \<Rightarrow> bool" where
  "stale this filePath =
     (case map_of (map_items this) filePath of None \<Rightarrow> False | Some item \<Rightarrow> \<not> fresh item)"

definition beFresh_item :: "env \<Rightarrow> string set \<Rightarrow> string \<Rightarrow> TrackMapItem \<Rightarrow> TrackMapItem" where
  "beFresh_item e ign filePath item =
     (if fresh item \<or> filePath \<in> ign then item
      else settle_item e filePath (request_item item))"

text \<open>The first step of \<^verbatim>\<open>beFresh\<close>: the scan of the start path when it has not been
  done.\<close>

definition beFresh_start :: "env \<Rightarrow> FileTracker \<Rightarrow> FileTracker" where
  "beFresh_start e this = (if \<not> startPathLoaded this then loadStartPath e this else this)"

text \<open>The events a step adds to the trace, and the steps that add neither a disk read nor
  a call of \<^verbatim>\<open>onUpdate\<close> for a path.\<close>

definition new_events :: "FileTracker \<Rightarrow> FileTracker \<Rightarrow> event list" where
  "new_events this this' = drop (length (trace this)) (trace this')"


text \<open>More example trackers: \<open>pull_tracker\<close> after \<^verbatim>\<open>trackFile\<close> of \<^verbatim>\<open>/x.css\<close>, and then after
  \<^verbatim>\<open>ignore\<close> of the same path.\<close>

definition new_item :: TrackMapItem where
  "new_item = \<lparr>document = None, version = 0, opened = False, fresh = False, updatePromise = None\<rparr>"

definition tracked_tracker :: FileTracker where
  "tracked_tracker =
     pull_tracker\<lparr>map_items := [(''/x.css'', new_item)], allFresh := False,
                  trace := [ConsoleLog ''/x.css tracked'', OnTrack ''/x.css'']\<rparr>"

definition ignored_tracker :: FileTracker where
  "ignored_tracker =
     tracked_tracker\<lparr>ignoredFilePaths := {''/x.css''},
                     trace := [ConsoleLog ''/x.css tracked'', OnTrack ''/x.css'',
                               ConsoleLog ''/x.css ignored'']\<rparr>"

subsection \<open>Scenarios\<close>

text \<open>
  A call of \<^verbatim>\<open>doUpdate\<close> awaited with nothing else in between, and two calls of
  \<^verbatim>\<open>doUpdate\<close> for one path, the second made before the promise of the first has resolved.
  There are two moments for the second call: directly after the first, or (\<open>late\<close>) after
  the disk read of the first has been answered and its call of \<^verbatim>\<open>onUpdate\<close> is pending.
  \<open>between_requests\<close> is the tracker the second call finds.
\<close>

definition reload :: "env \<Rightarrow> FileTracker \<Rightarrow> string \<Rightarrow> FileTracker" where
  "reload e this filePath = awaitUpdatePromise e (fst (doUpdate this filePath)) filePath"

definition between_requests :: "env \<Rightarrow> bool \<Rightarrow> FileTracker \<Rightarrow> string \<Rightarrow> FileTracker" where
  "between_requests e late this filePath =
     (if late then getUpdatePromise_loaded e (fst (doUpdate this filePath)) filePath
      else fst (doUpdate this filePath))"

definition two_requests :: "env \<Rightarrow> bool \<Rightarrow> FileTracker \<Rightarrow> string \<Rightarrow> FileTracker" where
  "two_requests e late this filePath =
     fst (doUpdate (between_requests e late this filePath) filePath)"

text \<open>\<open>x_tracker\<close> after the buffer of its file has changed to version 2, and a tracker
  with \<^verbatim>\<open>updateImmediately\<close> whose path \<^verbatim>\<open>/x.css\<close> was ignored before it was tracked.\<close>

definition edited_tracker :: FileTracker where
  "edited_tracker =
     pull_tracker\<lparr>map_items := [(''/x.css'', opened_item\<lparr>fresh := False\<rparr>)], allFresh := False,
                  trace := [ConsoleLog ''/x.css expired'', OnExpired ''/x.css'']\<rparr>"

definition push_ignored_tracker :: FileTracker where
  "push_ignored_tracker =
     pull_tracker\<lparr>updateImmediately := True, map_items := [(''/x.css'', new_item)],
                  ignoredFilePaths := {''/x.css''}, trace := [ConsoleLog ''/x.css ignored'']\<rparr>"

section \<open>Properties\<close>

subsection \<open>Association lists and the small helpers\<close>

lemma map_of_map_entry_same:
  "map_of (AList.map_entry k f al) k = map_option f (map_of al k)"
  by (simp add: map_of_map_entry split: option.splits)

lemma map_of_map_entry_other:
  "q \<noteq> k \<Longrightarrow> map_of (AList.map_entry k f al) q = map_of al q"
  by (simp add: map_of_map_entry)

lemma keys_map_entry: "map fst (AList.map_entry k f al) = map fst al"
  by (induction al) auto

lemma map_entry_twice:
  "AList.map_entry k f (AList.map_entry k g al) = AList.map_entry k (\<lambda>i. f (g i)) al"
  by (induction al) auto

lemma distinct_count_list: "distinct xs \<Longrightarrow> x \<in> set xs \<Longrightarrow> count_list xs x = 1"
  by (induction xs) auto

lemma map_items_updateItem [simp]:
  "map_items (updateItem this p f) = AList.map_entry p f (map_items this)"
  by (simp add: updateItem_def)

lemma updateItem_fields [simp]:
  "ignoredFilePaths (updateItem this p f) = ignoredFilePaths this"
  "allFresh (updateItem this p f) = allFresh this"
  "startPathLoaded (updateItem this p f) = startPathLoaded this"
  "updateImmediately (updateItem this p f) = updateImmediately this"
  "startPath (updateItem this p f) = startPath this"
  "trace (updateItem this p f) = trace this"
  by (simp_all add: updateItem_def)

lemma emit_fields [simp]:
  "map_items (emit this es) = map_items this"
  "ignoredFilePaths (emit this es) = ignoredFilePaths this"
  "allFresh (emit this es) = allFresh this"
  "startPathLoaded (emit this es) = startPathLoaded this"
  "updateImmediately (emit this es) = updateImmediately this"
  "startPath (emit this es) = startPath this"
  "trace (emit this es) = trace this @ es"
  by (simp_all add: emit_def)

lemma has_keys: "has this p \<longleftrightarrow> p \<in> set (map fst (map_items this))"
  by (simp add: has_def map_of_eq_None_iff)

subsection \<open>The example trackers are states the code reaches\<close>

lemma constructor_pull: "constructor example_env pull_options = Inr pull_tracker"
  by (simp add: constructor_def pull_options_def pull_tracker_def example_env_def
      posix_isAbsolute_def truthy_def Let_def)

lemma x_tracker_reachable:
  "beFresh example_env (trackFile pull_tracker ''/x.css'') =
     x_tracker\<lparr>trace := [ConsoleLog ''/x.css tracked'', OnTrack ''/x.css'', ReadText ''/x.css'',
        OnUpdate ''/x.css'', ConsoleLog ''/x.css loaded from file'', ConsoleLogUpdated 1]\<rparr>"
  by (simp add: beFresh_def beFresh_step_def awaitUpdatePromise_def doUpdate_def trackFile_def
      pull_tracker_def x_tracker_def fresh_item_def handleTrackFollowed_def getUpdatePromise_def
      getUpdatePromise_loaded_def getUpdatePromise_updated_def loadDocumentFromFilePath_def
      example_env_def emit_def updateItem_def Let_def)

subsection \<open>Closing a buffer\<close>

text \<open>
  C8. A buffer-closed event for a path with a record sets the record's document to
  \<^verbatim>\<open>null\<close>, its version to 1 and \<^verbatim>\<open>opened\<close> to false. The record's \<^verbatim>\<open>fresh\<close> flag and
  pending promise, the other records, the keys of the map, the ignored set and the two
  flags of the tracker stay as they are, and no hook is called: the trace grows by the
  log line only.
\<close>

theorem onDocumentClosed_detaches:
  assumes "uriToFilePath e (doc_uri doc) = Some filePath"
    and "map_of (map_items this) filePath = Some item"
  shows "map_of (map_items (onDocumentClosed e this doc)) filePath =
           Some (item\<lparr>document := None, version := 1, opened := False\<rparr>)
       \<and> (\<forall>q. q \<noteq> filePath \<longrightarrow>
             map_of (map_items (onDocumentClosed e this doc)) q = map_of (map_items this) q)
       \<and> map fst (map_items (onDocumentClosed e this doc)) = map fst (map_items this)
       \<and> ignoredFilePaths (onDocumentClosed e this doc) = ignoredFilePaths this
       \<and> allFresh (onDocumentClosed e this doc) = allFresh this
       \<and> startPathLoaded (onDocumentClosed e this doc) = startPathLoaded this
       \<and> trace (onDocumentClosed e this doc) = trace this @ [ConsoleLog (filePath @ '' closed'')]"
  using assms
  by (simp add: onDocumentClosed_def unTrackOpenedFile_def map_of_map_entry keys_map_entry)

theorem onDocumentClosed_detaches_witness:
  "uriToFilePath example_env (doc_uri buffer2) = Some ''/x.css''
   \<and> map_of (map_items opened_tracker) ''/x.css'' = Some opened_item
   \<and> map_of (map_items (onDocumentClosed example_env opened_tracker buffer2)) ''/x.css'' =
        Some \<lparr>document = None, version = 1, opened = False, fresh = True, updatePromise = None\<rparr>
   \<and> map fst (map_items (onDocumentClosed example_env opened_tracker buffer2)) = [''/x.css'']
   \<and> ignoredFilePaths (onDocumentClosed example_env opened_tracker buffer2) = {}
   \<and> allFresh (onDocumentClosed example_env opened_tracker buffer2)
   \<and> trace (onDocumentClosed example_env opened_tracker buffer2) = [ConsoleLog ''/x.css closed'']"
  using onDocumentClosed_detaches [of example_env buffer2 "''/x.css''" opened_tracker opened_item]
  by (simp add: example_env_def buffer2_def opened_tracker_def opened_item_def fresh_item_def
      pull_tracker_def)

subsection \<open>Tracking a path twice\<close>

lemma doUpdate_ignored:
  "filePath \<in> ignoredFilePaths this \<Longrightarrow> doUpdate this filePath = (this, False)"
  by (simp add: doUpdate_def)

lemma keys_doUpdate: "map fst (map_items (fst (doUpdate this p))) = map fst (map_items this)"
  by (simp add: doUpdate_def getUpdatePromise_def keys_map_entry Let_def
      split: option.splits UpdatePromise.splits)

lemma keys_handleTrackFollowed:
  "map fst (map_items (handleTrackFollowed this p)) = map fst (map_items this)"
  by (simp add: handleTrackFollowed_def keys_doUpdate)

lemma trackFile_has: "has this p \<Longrightarrow> trackFile this p = this"
  by (auto simp: trackFile_def has_def)

lemma keys_trackFile:
  "map fst (map_items (trackFile this p)) =
     (if p \<in> set (map fst (map_items this)) then map fst (map_items this)
      else map fst (map_items this) @ [p])"
proof (cases "map_of (map_items this) p")
  case None
  then have "p \<notin> set (map fst (map_items this))"
    by (simp add: map_of_eq_None_iff)
  with None show ?thesis
    by (simp add: trackFile_def keys_handleTrackFollowed update_keys)
next
  case (Some item)
  then have "p \<in> set (map fst (map_items this))"
    by (metis has_def has_keys option.distinct(1))
  with Some show ?thesis
    by (simp add: trackFile_def)
qed

text \<open>
  C4. In a map whose keys are distinct, \<^verbatim>\<open>trackFile\<close> called twice for a path leaves one
  record for it: the second call changes nothing at all, the path is a key once and the
  keys stay distinct. For a path that has a record already, the call returns the tracker
  as it was, trace included, so no hook is called.
\<close>

theorem trackFile_twice_one_record:
  assumes "distinct (map fst (map_items this))"
  shows "trackFile (trackFile this filePath) filePath = trackFile this filePath
       \<and> count_list (map fst (map_items (trackFile this filePath))) filePath = 1
       \<and> distinct (map fst (map_items (trackFile this filePath)))
       \<and> (has this filePath \<longrightarrow> trackFile this filePath = this)"
proof -
  have k: "filePath \<in> set (map fst (map_items (trackFile this filePath)))"
    by (simp add: keys_trackFile)
  then have h: "has (trackFile this filePath) filePath"
    by (simp add: has_keys)
  have d: "distinct (map fst (map_items (trackFile this filePath)))"
    using assms by (simp add: keys_trackFile)
  show ?thesis
    using h d k by (simp add: trackFile_has distinct_count_list)
qed

theorem trackFile_twice_one_record_witness:
  "distinct (map fst (map_items x_tracker))
   \<and> has x_tracker ''/x.css''
   \<and> trackFile x_tracker ''/x.css'' = x_tracker
   \<and> trackFile (trackFile x_tracker ''/y.css'') ''/y.css'' = trackFile x_tracker ''/y.css''
   \<and> map fst (map_items (trackFile x_tracker ''/y.css'')) = [''/x.css'', ''/y.css'']
   \<and> count_list (map fst (map_items (trackFile x_tracker ''/y.css''))) ''/y.css'' = 1"
  using trackFile_twice_one_record [of x_tracker "''/x.css''"]
    trackFile_twice_one_record [of x_tracker "''/y.css''"]
  by (simp add: x_tracker_def pull_tracker_def has_def keys_trackFile)

subsection \<open>A buffer opened or changed\<close>

lemma trackOpenedFile_tracked:
  assumes "map_of (map_items this) filePath = Some item"
  shows "trackOpenedFile this filePath doc =
     (if doc_version doc > version item \<and> fresh item
      then emit ((updateItem this filePath
                   (\<lambda>i. i\<lparr>document := Some doc, version := doc_version doc, opened := True,
                           fresh := False\<rparr>))\<lparr>allFresh := False\<rparr>)
             [ConsoleLog (filePath @ '' expired''), OnExpired filePath]
      else updateItem this filePath
             (\<lambda>i. i\<lparr>document := Some doc, version := doc_version doc, opened := True\<rparr>))"
  using assms
  by (simp add: trackOpenedFile_def handleExpired_def Let_def map_of_map_entry updateItem_def
      emit_def map_entry_twice)

text \<open>
  C5, as the code has it. For a path with a record, \<^verbatim>\<open>trackOpenedFile\<close> attaches the
  buffer, takes its version and marks the record opened whatever the two versions are.
  When the buffer's version is greater than the record's and the record was fresh, the
  record is expired: \<^verbatim>\<open>fresh\<close> and \<^verbatim>\<open>allFresh\<close> become false and \<^verbatim>\<open>onExpired\<close> is called; no
  reload is started, the record being opened by then. Otherwise \<^verbatim>\<open>fresh\<close>, \<^verbatim>\<open>allFresh\<close> and
  the trace stay as they are. The other records and the ignored set are untouched.
\<close>

theorem trackOpenedFile_attaches_always:
  assumes "map_of (map_items this) filePath = Some item"
  shows "map_of (map_items (trackOpenedFile this filePath doc)) filePath =
           Some (item\<lparr>document := Some doc, version := doc_version doc, opened := True,
                      fresh := (fresh item \<and> \<not> doc_version doc > version item)\<rparr>)
       \<and> (\<forall>q. q \<noteq> filePath \<longrightarrow>
             map_of (map_items (trackOpenedFile this filePath doc)) q = map_of (map_items this) q)
       \<and> ignoredFilePaths (trackOpenedFile this filePath doc) = ignoredFilePaths this
       \<and> (if doc_version doc > version item \<and> fresh item
          then \<not> allFresh (trackOpenedFile this filePath doc)
             \<and> trace (trackOpenedFile this filePath doc) =
                 trace this @ [ConsoleLog (filePath @ '' expired''), OnExpired filePath]
          else allFresh (trackOpenedFile this filePath doc) = allFresh this
             \<and> trace (trackOpenedFile this filePath doc) = trace this)"
  using assms
  by (auto simp: trackOpenedFile_tracked map_of_map_entry)

theorem trackOpenedFile_attaches_always_witness:
  "map_of (map_items x_tracker) ''/x.css'' = Some fresh_item
   \<and> map_of (map_items (trackOpenedFile x_tracker ''/x.css'' buffer2)) ''/x.css'' =
        Some (fresh_item\<lparr>document := Some buffer2, version := 2, opened := True, fresh := False\<rparr>)
   \<and> \<not> allFresh (trackOpenedFile x_tracker ''/x.css'' buffer2)
   \<and> trace (trackOpenedFile x_tracker ''/x.css'' buffer2) =
        [ConsoleLog ''/x.css expired'', OnExpired ''/x.css'']"
  using trackOpenedFile_attaches_always [of x_tracker "''/x.css''" fresh_item buffer2]
  by (simp add: x_tracker_def pull_tracker_def fresh_item_def buffer2_def)

text \<open>
  C5, as the claim states it, fails: the record of \<open>x_tracker\<close> has version 1, is not
  opened and holds the document read from disk. A buffer of version 1, which is not
  greater, is attached all the same and the record is marked opened.
\<close>

theorem trackOpenedFile_same_version_counterexample:
  "map_of (map_items x_tracker) ''/x.css'' = Some fresh_item
   \<and> document fresh_item \<noteq> Some buffer1 \<and> \<not> opened fresh_item
   \<and> \<not> doc_version buffer1 > version fresh_item
   \<and> map_of (map_items (trackOpenedFile x_tracker ''/x.css'' buffer1)) ''/x.css'' =
        Some (fresh_item\<lparr>document := Some buffer1, opened := True\<rparr>)"
  by (simp add: trackOpenedFile_def x_tracker_def pull_tracker_def fresh_item_def buffer1_def
      updateItem_def Let_def)

subsection \<open>Construction\<close>

lemma long_pattern_length: "length long_pattern = 65537"
  unfolding long_pattern_def by (rule length_replicate)

lemma long_pattern_relative: "\<not> posix_isAbsolute long_pattern \<and> long_pattern \<noteq> []"
proof -
  have "(65537::nat) = Suc 65536" by simp
  then have "long_pattern = CHR ''a'' # replicate 65536 (CHR ''a'')"
    unfolding long_pattern_def by (simp only: replicate_Suc)
  then obtain xs where eq: "long_pattern = CHR ''a'' # xs"
    by blast
  show ?thesis
    by (simp only: eq) (simp add: posix_isAbsolute_def)
qed

text \<open>
  C9, as the code has it. \<^verbatim>\<open>path.isAbsolute\<close> is a parameter; Node's function is false for
  the empty string, on every platform. For an absolute include pattern the constructor
  returns its own error and no tracker. For any other include pattern it returns a tracker
  exactly when \<^verbatim>\<open>Minimatch\<close> accepts the include pattern in use (\<^verbatim>\<open>**/*\<close> for the empty one)
  and the exclude pattern, if a non-empty one is given; otherwise the \<^verbatim>\<open>TypeError\<close> of
  \<^verbatim>\<open>Minimatch\<close> leaves the constructor and there is no tracker either.
\<close>

theorem constructor_outcome:
  assumes "\<not> isAbsolute e []"
  shows "(isAbsolute e (opt_includeGlobPattern options) \<longrightarrow>
            constructor e options = Inl (AbsoluteIncludePattern (opt_includeGlobPattern options)))
       \<and> (\<not> isAbsolute e (opt_includeGlobPattern options) \<longrightarrow>
            ((\<exists>this. constructor e options = Inr this) \<longleftrightarrow>
               minimatchAccepts e (if opt_includeGlobPattern options = [] then ''**/*''
                                   else opt_includeGlobPattern options)
             \<and> (\<forall>x. opt_excludeGlobPattern options = Some x \<and> x \<noteq> [] \<longrightarrow> minimatchAccepts e x))
          \<and> ((\<exists>p. constructor e options = Inl (MinimatchTypeError p)) \<longleftrightarrow>
               \<not> (minimatchAccepts e (if opt_includeGlobPattern options = [] then ''**/*''
                                      else opt_includeGlobPattern options)
                  \<and> (\<forall>x. opt_excludeGlobPattern options = Some x \<and> x \<noteq> [] \<longrightarrow> minimatchAccepts e x))))"
  using assms
  by (cases "opt_excludeGlobPattern options")
     (auto simp: constructor_def Let_def truthy_def)

theorem constructor_outcome_witness:
  "\<not> isAbsolute example_env []
   \<and> isAbsolute example_env
       (opt_includeGlobPattern (pull_options\<lparr>opt_includeGlobPattern := ''/srv/**/*.css''\<rparr>))
   \<and> constructor example_env (pull_options\<lparr>opt_includeGlobPattern := ''/srv/**/*.css''\<rparr>) =
        Inl (AbsoluteIncludePattern ''/srv/**/*.css'')
   \<and> \<not> isAbsolute example_env (opt_includeGlobPattern pull_options)
   \<and> minimatchAccepts example_env (opt_includeGlobPattern pull_options)
   \<and> opt_excludeGlobPattern pull_options = None
   \<and> (\<exists>this. constructor example_env pull_options = Inr this)"
  using constructor_outcome
      [of example_env "pull_options\<lparr>opt_includeGlobPattern := ''/srv/**/*.css''\<rparr>"]
    constructor_outcome [of example_env pull_options]
  by (simp add: example_env_def posix_isAbsolute_def pull_options_def)

text \<open>
  C9, as the claim states it, fails: a relative include pattern of 65537 characters is
  refused by \<^verbatim>\<open>Minimatch\<close>, so the construction throws although the pattern is not absolute.
\<close>

theorem constructor_long_pattern_counterexample:
  "\<not> isAbsolute example_env (opt_includeGlobPattern (pull_options\<lparr>opt_includeGlobPattern := long_pattern\<rparr>))
   \<and> constructor example_env (pull_options\<lparr>opt_includeGlobPattern := long_pattern\<rparr>) =
        Inl (MinimatchTypeError long_pattern)"
  using long_pattern_relative
  by (simp add: constructor_def example_env_def pull_options_def long_pattern_length Let_def)

subsection \<open>Removal of a deleted path\<close>

lemma delete_filter_keys: "AList.delete k al = filter (\<lambda>kv. fst kv \<noteq> k) al"
  by (induction al) (auto simp: AList.delete_eq)

lemma map_of_filter_keys:
  "map_of (filter (\<lambda>kv. Q (fst kv)) al) p = (if Q p then map_of al p else None)"
  by (induction al) auto

lemma map_of_Some_key: "map_of al k = Some v \<Longrightarrow> k \<in> fst ` set al"
  by (force dest: map_of_SomeD)

lemma unTrackPath_step_map_items:
  "map_items (unTrackPath_step d this k) =
     (if startsWith k d then AList.delete k (map_items this) else map_items this)"
  by (auto simp: unTrackPath_step_def map_of_eq_None_iff split: option.splits)

lemma unTrackPath_step_ignored:
  "ignoredFilePaths (unTrackPath_step d this k) =
     (if startsWith k d \<and> k \<in> fst ` set (map_items this) then ignoredFilePaths this - {k}
      else ignoredFilePaths this)"
  by (auto simp: unTrackPath_step_def map_of_eq_None_iff dest: map_of_Some_key
      split: option.splits)

lemma unTrackPath_step_trace:
  "trace (unTrackPath_step d this k) =
     trace this @ (if startsWith k d \<and> k \<in> fst ` set (map_items this)
                   then [ConsoleLog (k @ '' removed''), OnUnTrack k] else [])"
  by (auto simp: unTrackPath_step_def map_of_eq_None_iff dest: map_of_Some_key
      split: option.splits)

text \<open>The loop over a list of keys, by induction on the list from its end: the records
  of the keys met so far that start with the deleted path are gone.\<close>

lemma unTrackPath_loop_map_items:
  "map_items (foldl (unTrackPath_step d) this ks) =
     filter (\<lambda>kv. \<not> (fst kv \<in> set ks \<and> startsWith (fst kv) d)) (map_items this)"
proof (induction ks rule: rev_induct)
  case Nil
  show ?case by simp
next
  case (snoc k ks)
  show ?case
    by (auto simp: snoc unTrackPath_step_map_items delete_filter_keys intro: filter_cong)
qed

lemma unTrackPath_loop_keys:
  "fst ` set (map_items (foldl (unTrackPath_step d) this ks)) =
     {p \<in> fst ` set (map_items this). \<not> (p \<in> set ks \<and> startsWith p d)}"
  by (auto simp: unTrackPath_loop_map_items)

lemma unTrackPath_loop_ignored:
  "ignoredFilePaths (foldl (unTrackPath_step d) this ks) =
     ignoredFilePaths this - {p \<in> set ks. startsWith p d \<and> p \<in> fst ` set (map_items this)}"
proof (induction ks rule: rev_induct)
  case Nil
  show ?case by simp
next
  case (snoc k ks)
  show ?case
    by (auto simp: snoc unTrackPath_step_ignored unTrackPath_loop_keys)
qed

lemma unTrackPath_loop_trace:
  "distinct ks \<Longrightarrow>
   trace (foldl (unTrackPath_step d) this ks) =
     trace this @ concat (map (\<lambda>p. [ConsoleLog (p @ '' removed''), OnUnTrack p])
       (filter (\<lambda>p. startsWith p d \<and> p \<in> fst ` set (map_items this)) ks))"
proof (induction ks rule: rev_induct)
  case Nil
  show ?case by simp
next
  case (snoc k ks)
  then show ?case
    by (auto simp: unTrackPath_step_trace unTrackPath_loop_keys)
qed

lemma count_list_untrack_events:
  "count_list (concat (map (\<lambda>p. [ConsoleLog (p @ '' removed''), OnUnTrack p]) qs)) (OnUnTrack p)
     = count_list qs p"
  by (induction qs) auto

lemma count_list_filter_distinct:
  "distinct xs \<Longrightarrow> count_list (filter P xs) x = (if x \<in> set xs \<and> P x then 1 else 0)"
  by (induction xs) auto

lemma unTrackPath_map_items:
  "map_items (unTrackPath this d) = filter (\<lambda>kv. \<not> startsWith (fst kv) d) (map_items this)"
  unfolding unTrackPath_def
  by (simp add: unTrackPath_loop_map_items) (rule filter_cong, auto)

lemma map_of_unTrackPath:
  "map_of (map_items (unTrackPath this d)) p =
     (if startsWith p d then None else map_of (map_items this) p)"
  by (simp add: unTrackPath_map_items map_of_filter_keys [where Q = "\<lambda>k. \<not> startsWith k d"])

text \<open>
  C6. In a map with distinct keys, \<^verbatim>\<open>unTrackPath\<close> for a deleted path removes from the map
  exactly the records whose key starts with that path, in place, removes their keys from
  the ignored set, logs and calls \<^verbatim>\<open>onUnTrack\<close> for each of them in the order of the map,
  so once per removed record and never for another path, and clears \<^verbatim>\<open>allFresh\<close>. The
  witness is the directory example: \<^verbatim>\<open>/a/b.css\<close>, \<^verbatim>\<open>/a/c.css\<close> and \<^verbatim>\<open>/a/sub/d.css\<close> all go
  when \<^verbatim>\<open>/a\<close> is deleted.
\<close>

theorem unTrackPath_removes_prefixed:
  assumes "distinct (map fst (map_items this))"
  shows "map_items (unTrackPath this d) =
           filter (\<lambda>kv. \<not> startsWith (fst kv) d) (map_items this)
       \<and> ignoredFilePaths (unTrackPath this d) =
           ignoredFilePaths this - set (filter (\<lambda>p. startsWith p d) (map fst (map_items this)))
       \<and> trace (unTrackPath this d) =
           trace this @ concat (map (\<lambda>p. [ConsoleLog (p @ '' removed''), OnUnTrack p])
             (filter (\<lambda>p. startsWith p d) (map fst (map_items this))))
       \<and> (\<forall>p. count_list (trace (unTrackPath this d)) (OnUnTrack p) =
                count_list (trace this) (OnUnTrack p) +
                (if has this p \<and> startsWith p d then 1 else 0))
       \<and> \<not> allFresh (unTrackPath this d)"
proof -
  let ?ks = "map fst (map_items this)"
  have f: "filter (\<lambda>p. startsWith p d \<and> p \<in> fst ` set (map_items this)) ?ks =
           filter (\<lambda>p. startsWith p d) ?ks"
    by (rule filter_cong) auto
  have i: "ignoredFilePaths (unTrackPath this d) =
           ignoredFilePaths this - set (filter (\<lambda>p. startsWith p d) ?ks)"
    unfolding unTrackPath_def by (auto simp: unTrackPath_loop_ignored)
  have t: "trace (unTrackPath this d) =
           trace this @ concat (map (\<lambda>p. [ConsoleLog (p @ '' removed''), OnUnTrack p])
             (filter (\<lambda>p. startsWith p d) ?ks))"
    unfolding unTrackPath_def using assms by (simp add: unTrackPath_loop_trace f)
  have c: "count_list (trace (unTrackPath this d)) (OnUnTrack p) =
           count_list (trace this) (OnUnTrack p) +
           (if has this p \<and> startsWith p d then 1 else 0)" for p
    using assms
    by (simp add: t count_list_append count_list_untrack_events count_list_filter_distinct
        has_keys)
  have a: "\<not> allFresh (unTrackPath this d)"
    by (simp add: unTrackPath_def)
  show ?thesis
    using unTrackPath_map_items i t c a by blast
qed

theorem unTrackPath_removes_prefixed_witness:
  "distinct (map fst (map_items abc_tracker))
   \<and> map fst (map_items (unTrackPath abc_tracker ''/a'')) = [''/b/a.css'']
   \<and> ignoredFilePaths (unTrackPath abc_tracker ''/a'') = {''/b/a.css''}
   \<and> trace (unTrackPath abc_tracker ''/a'') =
        [ConsoleLog ''/a/b.css removed'', OnUnTrack ''/a/b.css'',
         ConsoleLog ''/a/c.css removed'', OnUnTrack ''/a/c.css'',
         ConsoleLog ''/a/sub/d.css removed'', OnUnTrack ''/a/sub/d.css'']
   \<and> \<not> allFresh (unTrackPath abc_tracker ''/a'')"
  using unTrackPath_removes_prefixed [of abc_tracker "''/a''"]
  by (simp add: abc_tracker_def pull_tracker_def startsWith_def)

text \<open>
  C10. The test of \<^verbatim>\<open>unTrackPath\<close> is the prefix order on strings and nothing else: a
  tracked path loses its record if and only if the deleted path is a prefix of it, and
  keeps its record unchanged otherwise. In the witness the deletion of \<^verbatim>\<open>/a\<close> removes the
  sibling file \<^verbatim>\<open>/ab.css\<close>, which is not inside the directory \<^verbatim>\<open>/a\<close>.
\<close>

theorem unTrackPath_raw_prefix:
  assumes "map_of (map_items this) p = Some item"
  shows "(map_of (map_items (unTrackPath this d)) p = None \<longleftrightarrow> prefix d p)
       \<and> (\<not> prefix d p \<longrightarrow> map_of (map_items (unTrackPath this d)) p = Some item)"
  using assms by (simp add: map_of_unTrackPath startsWith_def)

theorem unTrackPath_raw_prefix_witness:
  "map_of (map_items sibling_tracker) ''/ab.css'' = Some fresh_item
   \<and> prefix ''/a'' ''/ab.css''
   \<and> map_of (map_items (unTrackPath sibling_tracker ''/a'')) ''/ab.css'' = None
   \<and> map_of (map_items sibling_tracker) ''/b/a.css'' = Some fresh_item
   \<and> \<not> prefix ''/a'' ''/b/a.css''
   \<and> map_of (map_items (unTrackPath sibling_tracker ''/a'')) ''/b/a.css'' = Some fresh_item
   \<and> map fst (map_items (unTrackPath sibling_tracker ''/a'')) = [''/b/a.css'']"
  using unTrackPath_raw_prefix [of sibling_tracker "''/ab.css''" fresh_item "''/a''"]
    unTrackPath_raw_prefix [of sibling_tracker "''/b/a.css''" fresh_item "''/a''"]
  by (simp add: sibling_tracker_def pull_tracker_def unTrackPath_map_items startsWith_def)

subsection \<open>The pieces of the reload, record by record\<close>

lemma updateItem_emit: "updateItem (emit this es) p f = emit (updateItem this p f) es"
  by (simp add: updateItem_def emit_def)

lemma updateItem_twice:
  "updateItem (updateItem this p g) p f = updateItem this p (\<lambda>i. f (g i))"
  by (simp add: updateItem_def map_entry_twice)

lemma map_entry_cong_item:
  "map_of al k = Some item \<Longrightarrow> f item = g item \<Longrightarrow> AList.map_entry k f al = AList.map_entry k g al"
  by (induction al) (auto split: if_splits)

lemma map_entry_absent: "map_of al k = None \<Longrightarrow> AList.map_entry k f al = al"
  by (induction al) (auto split: if_splits)

lemma updateItem_cong:
  "map_of (map_items this) p = Some item \<Longrightarrow> f item = g item \<Longrightarrow>
   updateItem this p f = updateItem this p g"
  unfolding updateItem_def by (simp add: map_entry_cong_item [of _ _ item f g])

lemma emit_Nil [simp]: "emit this [] = this"
  by (simp add: emit_def)

lemma doUpdate_eq:
  "doUpdate this q =
     (if q \<in> ignoredFilePaths this then (this, False)
      else case map_of (map_items this) q of
             None \<Rightarrow> (this, True)
           | Some item \<Rightarrow> (emit (updateItem this q request_item) (request_events q item), True))"
proof (cases "map_of (map_items this) q")
  case None
  then show ?thesis by (simp add: doUpdate_def)
next
  case item: (Some item)
  have "fst (doUpdate this q) = emit (updateItem this q request_item) (request_events q item)"
    if q: "q \<notin> ignoredFilePaths this"
  proof (cases "updatePromise item")
    case None
    show ?thesis
    proof (cases "opened item \<and> document item \<noteq> None")
      case True
      have "fst (doUpdate this q) =
            emit (updateItem this q (\<lambda>i. i\<lparr>fresh := True, updatePromise := Some (AwaitOnUpdate True 0)\<rparr>))
              [OnUpdate q]"
        using item None True q
        by (simp add: doUpdate_def getUpdatePromise_def updateItem_emit updateItem_twice)
      also have "updateItem this q (\<lambda>i. i\<lparr>fresh := True, updatePromise := Some (AwaitOnUpdate True 0)\<rparr>)
            = updateItem this q request_item"
        by (rule updateItem_cong [OF item]) (use True None in \<open>auto simp add: request_item_def\<close>)
      finally show ?thesis
        using None True by (simp add: request_events_def)
    next
      case False
      have "fst (doUpdate this q) =
            emit (updateItem this q (\<lambda>i. i\<lparr>updatePromise := Some (AwaitLoad 0)\<rparr>)) [ReadText q]"
        using item None False q
        by (simp add: doUpdate_def getUpdatePromise_def updateItem_emit)
      also have "updateItem this q (\<lambda>i. i\<lparr>updatePromise := Some (AwaitLoad 0)\<rparr>)
            = updateItem this q request_item"
        by (rule updateItem_cong [OF item]) (use False None in \<open>auto simp add: request_item_def\<close>)
      finally show ?thesis
        using None False by (auto simp add: request_events_def)
    qed
  next
    case (Some pr)
    show ?thesis
    proof (cases pr)
      case (AwaitLoad n)
      have "fst (doUpdate this q) =
            updateItem this q (\<lambda>i. i\<lparr>updatePromise := Some (AwaitLoad (Suc n))\<rparr>)"
        using item Some AwaitLoad q by (simp add: doUpdate_def)
      also have "\<dots> = updateItem this q request_item"
        by (rule updateItem_cong [OF item]) (use Some AwaitLoad in \<open>simp add: request_item_def\<close>)
      finally show ?thesis
        using Some by (simp add: request_events_def)
    next
      case (AwaitOnUpdate h n)
      have "fst (doUpdate this q) =
            updateItem this q (\<lambda>i. i\<lparr>updatePromise := Some (AwaitOnUpdate h (Suc n))\<rparr>)"
        using item Some AwaitOnUpdate q by (simp add: doUpdate_def)
      also have "\<dots> = updateItem this q request_item"
        by (rule updateItem_cong [OF item]) (use Some AwaitOnUpdate in \<open>simp add: request_item_def\<close>)
      finally show ?thesis
        using Some by (simp add: request_events_def)
    qed
  qed
  moreover have "snd (doUpdate this q) = (q \<notin> ignoredFilePaths this)"
    by (simp add: doUpdate_def split: option.splits UpdatePromise.splits prod.splits)
  moreover have "doUpdate this q = (this, False)" if "q \<in> ignoredFilePaths this"
    using that by (simp add: doUpdate_def)
  ultimately show ?thesis
    using item by (cases "doUpdate this q") auto
qed


lemma updateItem_same:
  "map_of (map_items this) p = Some item \<Longrightarrow> f item = item \<Longrightarrow> updateItem this p f = this"
proof -
  assume a: "map_of (map_items this) p = Some item" "f item = item"
  have "AList.map_entry p f al = al" if "map_of al p = Some item" for al
    using that a(2) by (induction al) (auto split: if_splits)
  with a(1) show ?thesis by (simp add: updateItem_def)
qed

lemma emit_emit: "emit (emit this es) fs = emit this (es @ fs)"
  by (simp add: emit_def)

lemma map_of_updateItem:
  "map_of (map_items (updateItem this q f)) p =
     (if p = q then map_option f (map_of (map_items this) p) else map_of (map_items this) p)"
  by (simp add: map_of_map_entry split: option.splits)

lemma getUpdatePromise_loaded_eq:
  assumes item: "map_of (map_items this) q = Some item"
    and pr: "updatePromise item = Some (AwaitLoad n)"
  shows "getUpdatePromise_loaded e this q =
     emit (updateItem this q
        (\<lambda>i. (case fst (loadDocumentFromFilePath e q) of
                None \<Rightarrow> i\<lparr>document := None, fresh := True,
                           updatePromise := Some (AwaitOnUpdate False n)\<rparr>
              | Some d \<Rightarrow> i\<lparr>document := Some d, version := doc_version d, fresh := True,
                             updatePromise := Some (AwaitOnUpdate False n)\<rparr>)))
       (snd (loadDocumentFromFilePath e q) @ [OnUpdate q])"
  using item pr
  by (cases "loadDocumentFromFilePath e q"; cases "fst (loadDocumentFromFilePath e q)")
     (simp_all add: getUpdatePromise_loaded_def updateItem_emit updateItem_twice emit_emit)

lemma getUpdatePromise_updated_eq:
  assumes item: "map_of (map_items this) q = Some item"
    and pr: "updatePromise item = Some (AwaitOnUpdate h n)"
  shows "getUpdatePromise_updated this q =
     (emit (updateItem this q (\<lambda>i. i\<lparr>updatePromise := None\<rparr>))
        [ConsoleLog (q @ '' loaded from '' @ (if h then ''document'' else ''file''))], Suc n)"
  using item pr
  by (simp add: getUpdatePromise_updated_def updateItem_emit)

lemma awaitUpdatePromise_eq:
  "awaitUpdatePromise e this q =
     (case map_of (map_items this) q of
        None \<Rightarrow> this
      | Some item \<Rightarrow> emit (updateItem this q (settle_item e q)) (settle_events e q item))"
proof (cases "map_of (map_items this) q")
  case None
  then show ?thesis
    by (simp add: awaitUpdatePromise_def getUpdatePromise_loaded_def getUpdatePromise_updated_def)
next
  case item: (Some item)
  show ?thesis
  proof (cases "updatePromise item")
    case None
    have "updateItem this q (settle_item e q) = this"
      by (rule updateItem_same [OF item]) (simp add: settle_item_def None)
    then show ?thesis
      using item None
      by (simp add: awaitUpdatePromise_def getUpdatePromise_loaded_def
          getUpdatePromise_updated_def settle_events_def)
  next
    case (Some pr)
    show ?thesis
    proof (cases pr)
      case (AwaitLoad n)
      let ?f = "\<lambda>i. (case fst (loadDocumentFromFilePath e q) of
                None \<Rightarrow> i\<lparr>document := None, fresh := True,
                           updatePromise := Some (AwaitOnUpdate False n)\<rparr>
              | Some d \<Rightarrow> i\<lparr>document := Some d, version := doc_version d, fresh := True,
                             updatePromise := Some (AwaitOnUpdate False n)\<rparr>)"
      let ?this1 = "getUpdatePromise_loaded e this q"
      have l: "?this1 = emit (updateItem this q ?f) (snd (loadDocumentFromFilePath e q) @ [OnUpdate q])"
        using item Some AwaitLoad by (simp add: getUpdatePromise_loaded_eq)
      have i1: "map_of (map_items ?this1) q = Some (?f item)"
        by (simp add: l map_of_map_entry_same item)
      have p1: "updatePromise (?f item) = Some (AwaitOnUpdate False n)"
        by (simp split: option.splits)
      have "awaitUpdatePromise e this q =
            emit (updateItem ?this1 q (\<lambda>i. i\<lparr>updatePromise := None\<rparr>))
              [ConsoleLog (q @ '' loaded from file'')]"
        unfolding awaitUpdatePromise_def
        by (simp add: getUpdatePromise_updated_eq [OF i1 p1])
      also have "\<dots> = emit (updateItem this q (\<lambda>i. (?f i)\<lparr>updatePromise := None\<rparr>))
            (snd (loadDocumentFromFilePath e q) @ [OnUpdate q, ConsoleLog (q @ '' loaded from file'')])"
        by (simp add: l updateItem_emit updateItem_twice emit_emit)
      also have "updateItem this q (\<lambda>i. (?f i)\<lparr>updatePromise := None\<rparr>) =
                 updateItem this q (settle_item e q)"
        by (rule updateItem_cong [OF item])
           (simp add: settle_item_def Some AwaitLoad split: option.splits)
      finally show ?thesis
        using item Some AwaitLoad by (simp add: settle_events_def)
    next
      case (AwaitOnUpdate h n)
      have "getUpdatePromise_loaded e this q = this"
        using item Some AwaitOnUpdate by (simp add: getUpdatePromise_loaded_def)
      then have "awaitUpdatePromise e this q =
            emit (updateItem this q (\<lambda>i. i\<lparr>updatePromise := None\<rparr>))
              [ConsoleLog (q @ '' loaded from '' @ (if h then ''document'' else ''file''))]"
        using item Some AwaitOnUpdate
        by (simp add: awaitUpdatePromise_def getUpdatePromise_updated_eq)
      also have "updateItem this q (\<lambda>i. i\<lparr>updatePromise := None\<rparr>) =
                 updateItem this q (settle_item e q)"
        by (rule updateItem_cong [OF item]) (simp add: settle_item_def Some AwaitOnUpdate)
      finally show ?thesis
        using item Some AwaitOnUpdate by (simp add: settle_events_def)
    qed
  qed
qed


lemma map_of_doUpdate:
  "map_of (map_items (fst (doUpdate this q))) p =
     (if p = q \<and> q \<notin> ignoredFilePaths this then map_option request_item (map_of (map_items this) p)
      else map_of (map_items this) p)"
  by (simp add: doUpdate_eq map_of_map_entry_same map_of_map_entry_other split: option.splits)

lemma doUpdate_fields [simp]:
  "ignoredFilePaths (fst (doUpdate this q)) = ignoredFilePaths this"
  "allFresh (fst (doUpdate this q)) = allFresh this"
  "startPathLoaded (fst (doUpdate this q)) = startPathLoaded this"
  "updateImmediately (fst (doUpdate this q)) = updateImmediately this"
  "startPath (fst (doUpdate this q)) = startPath this"
  by (simp_all add: doUpdate_eq split: option.splits)

lemma snd_doUpdate: "snd (doUpdate this q) = (q \<notin> ignoredFilePaths this)"
  by (simp add: doUpdate_eq split: option.splits)

lemma trace_doUpdate:
  "trace (fst (doUpdate this q)) =
     trace this @ (if q \<in> ignoredFilePaths this then []
                   else case map_of (map_items this) q of
                          None \<Rightarrow> [] | Some item \<Rightarrow> request_events q item)"
  by (simp add: doUpdate_eq split: option.splits)

lemma map_of_awaitUpdatePromise:
  "map_of (map_items (awaitUpdatePromise e this q)) p =
     (if p = q then map_option (settle_item e q) (map_of (map_items this) p)
      else map_of (map_items this) p)"
  by (simp add: awaitUpdatePromise_eq map_of_map_entry_same map_of_map_entry_other
      split: option.splits)

lemma awaitUpdatePromise_fields [simp]:
  "ignoredFilePaths (awaitUpdatePromise e this q) = ignoredFilePaths this"
  "allFresh (awaitUpdatePromise e this q) = allFresh this"
  "startPathLoaded (awaitUpdatePromise e this q) = startPathLoaded this"
  "updateImmediately (awaitUpdatePromise e this q) = updateImmediately this"
  by (simp_all add: awaitUpdatePromise_eq split: option.splits)

lemma keys_awaitUpdatePromise:
  "map fst (map_items (awaitUpdatePromise e this q)) = map fst (map_items this)"
  by (simp add: awaitUpdatePromise_eq keys_map_entry split: option.splits)

lemma trace_awaitUpdatePromise:
  "trace (awaitUpdatePromise e this q) =
     trace this @ (case map_of (map_items this) q of
                     None \<Rightarrow> [] | Some item \<Rightarrow> settle_events e q item)"
  by (simp add: awaitUpdatePromise_eq split: option.splits)

subsection \<open>The two passes of the freshness barrier\<close>

lemma beFresh_step_eq:
  "beFresh_step (this, acc) k =
     (if stale this k then (fst (doUpdate this k), acc @ [(k, k \<notin> ignoredFilePaths this)])
      else (this, acc))"
  by (cases "doUpdate this k")
     (auto simp: beFresh_step_def stale_def snd_doUpdate [symmetric] split: option.splits)

lemma beFresh_loop_ignored:
  "ignoredFilePaths (fst (foldl beFresh_step (this, acc) ks)) = ignoredFilePaths this"
proof (induction ks rule: rev_induct)
  case Nil
  show ?case by simp
next
  case (snoc k ks)
  then show ?case
    by (cases "foldl beFresh_step (this, acc) ks") (simp add: beFresh_step_eq)
qed

lemma beFresh_loop_keys:
  "map fst (map_items (fst (foldl beFresh_step (this, acc) ks))) = map fst (map_items this)"
proof (induction ks rule: rev_induct)
  case Nil
  show ?case by simp
next
  case (snoc k ks)
  then show ?case
    by (cases "foldl beFresh_step (this, acc) ks") (simp add: beFresh_step_eq keys_doUpdate)
qed

lemma beFresh_loop_map_of:
  "distinct ks \<Longrightarrow>
   map_of (map_items (fst (foldl beFresh_step (this, acc) ks))) p =
     (if p \<in> set ks \<and> stale this p \<and> p \<notin> ignoredFilePaths this
      then map_option request_item (map_of (map_items this) p)
      else map_of (map_items this) p)"
proof (induction ks arbitrary: p rule: rev_induct)
  case Nil
  show ?case by simp
next
  case (snoc k ks)
  obtain s1 a1 where r: "foldl beFresh_step (this, acc) ks = (s1, a1)"
    by (cases "foldl beFresh_step (this, acc) ks")
  have d: "distinct ks" and k: "k \<notin> set ks"
    using snoc.prems by simp_all
  have ih: "map_of (map_items s1) q =
     (if q \<in> set ks \<and> stale this q \<and> q \<notin> ignoredFilePaths this
      then map_option request_item (map_of (map_items this) q)
      else map_of (map_items this) q)" for q
    using snoc.IH [OF d, of q] by (simp add: r)
  have ign: "ignoredFilePaths s1 = ignoredFilePaths this"
    using beFresh_loop_ignored [of this acc ks] by (simp add: r)
  have mk: "map_of (map_items s1) k = map_of (map_items this) k"
    using k by (simp add: ih)
  then have st: "stale s1 k = stale this k"
    by (simp add: stale_def)
  have step: "fst (beFresh_step (foldl beFresh_step (this, acc) ks) k) =
              (if stale this k then fst (doUpdate s1 k) else s1)"
    by (simp add: r beFresh_step_eq st)
  show ?case
  proof (cases "p = k")
    case True
    then show ?thesis
      using k by (simp add: step map_of_doUpdate ign mk)
  next
    case False
    then show ?thesis
      by (simp add: step map_of_doUpdate ih)
  qed
qed


lemma beFresh_loop_promises:
  "distinct ks \<Longrightarrow>
   snd (foldl beFresh_step (this, acc) ks) =
     acc @ map (\<lambda>k. (k, k \<notin> ignoredFilePaths this)) (filter (stale this) ks)"
proof (induction ks rule: rev_induct)
  case Nil
  show ?case by simp
next
  case (snoc k ks)
  obtain s1 a1 where r: "foldl beFresh_step (this, acc) ks = (s1, a1)"
    by (cases "foldl beFresh_step (this, acc) ks")
  have d: "distinct ks" and k: "k \<notin> set ks"
    using snoc.prems by simp_all
  have a1: "a1 = acc @ map (\<lambda>k. (k, k \<notin> ignoredFilePaths this)) (filter (stale this) ks)"
    using snoc.IH [OF d] by (simp add: r)
  have ign: "ignoredFilePaths s1 = ignoredFilePaths this"
    using beFresh_loop_ignored [of this acc ks] by (simp add: r)
  have "map_of (map_items s1) k = map_of (map_items this) k"
    using beFresh_loop_map_of [OF d, of this acc k] k by (simp add: r)
  then have st: "stale s1 k = stale this k"
    by (simp add: stale_def)
  show ?case
    by (simp add: r beFresh_step_eq st ign a1)
qed

lemma awaited_paths:
  "map fst (filter snd (map (\<lambda>k. (k, k \<notin> ign)) ks)) = filter (\<lambda>k. k \<notin> ign) ks"
  by (induction ks) auto

lemma await_loop_ignored:
  "ignoredFilePaths (foldl (awaitUpdatePromise e) this ps) = ignoredFilePaths this"
  by (induction ps rule: rev_induct) simp_all

lemma await_loop_keys:
  "map fst (map_items (foldl (awaitUpdatePromise e) this ps)) = map fst (map_items this)"
  by (induction ps rule: rev_induct) (simp_all add: keys_awaitUpdatePromise)

lemma await_loop_map_of:
  "distinct ps \<Longrightarrow>
   map_of (map_items (foldl (awaitUpdatePromise e) this ps)) p =
     (if p \<in> set ps then map_option (settle_item e p) (map_of (map_items this) p)
      else map_of (map_items this) p)"
proof (induction ps arbitrary: p rule: rev_induct)
  case Nil
  show ?case by simp
next
  case (snoc k ps)
  then show ?case
    by (simp add: map_of_awaitUpdatePromise)
qed

lemma beFresh_eq:
  "\<not> allFresh this \<Longrightarrow>
   beFresh e this =
     (let this1 = beFresh_start e this;
          r = foldl beFresh_step (this1, []) (map fst (map_items this1));
          this3 = foldl (awaitUpdatePromise e) (fst r) (map fst (filter snd (snd r)));
          updatedCount = length (filter snd (snd r))
      in (if updatedCount > 0 then emit this3 [ConsoleLogUpdated updatedCount] else this3)
           \<lparr>allFresh := True\<rparr>)"
  by (simp add: beFresh_def beFresh_start_def Let_def case_prod_beta)

lemma beFresh_map_of:
  assumes "\<not> allFresh this"
    and "distinct (map fst (map_items (beFresh_start e this)))"
  shows "map_of (map_items (beFresh e this)) p =
           map_option (beFresh_item e (ignoredFilePaths (beFresh_start e this)) p)
             (map_of (map_items (beFresh_start e this)) p)"
proof -
  let ?s1 = "beFresh_start e this"
  let ?ks = "map fst (map_items ?s1)"
  let ?r = "foldl beFresh_step (?s1, []) ?ks"
  let ?ps = "filter (\<lambda>k. k \<notin> ignoredFilePaths ?s1) (filter (stale ?s1) ?ks)"
  have d: "distinct ?ks" by (rule assms(2))
  have ps: "map fst (filter snd (snd ?r)) = ?ps"
    by (simp add: beFresh_loop_promises [OF d] awaited_paths)
  have dps: "distinct ?ps"
    using d by simp
  have "map_items (beFresh e this) =
        map_items (foldl (awaitUpdatePromise e) (fst ?r) (map fst (filter snd (snd ?r))))"
    using assms(1) by (simp add: beFresh_eq Let_def)
  then have m: "map_of (map_items (beFresh e this)) p =
           map_of (map_items (foldl (awaitUpdatePromise e) (fst ?r) ?ps)) p"
    unfolding ps by simp
  have in_ps: "p \<in> set ?ps \<longleftrightarrow> stale ?s1 p \<and> p \<notin> ignoredFilePaths ?s1"
    by (auto simp: stale_def dest: map_of_Some_key split: option.splits)
  have in_ks: "stale ?s1 p \<Longrightarrow> p \<in> set ?ks"
    by (auto simp: stale_def dest: map_of_Some_key split: option.splits)
  show ?thesis
    unfolding m await_loop_map_of [OF dps] beFresh_loop_map_of [OF d] in_ps
    using in_ks
    by (cases "map_of (map_items ?s1) p") (auto simp: beFresh_item_def stale_def)
qed


subsection \<open>The scan of the start path\<close>

lemma handleTrackFollowed_fields [simp]:
  "ignoredFilePaths (handleTrackFollowed this q) = ignoredFilePaths this"
  "updateImmediately (handleTrackFollowed this q) = updateImmediately this"
  by (simp_all add: handleTrackFollowed_def)

lemma map_of_handleTrackFollowed:
  "p \<noteq> q \<Longrightarrow>
   map_of (map_items (handleTrackFollowed this q)) p = map_of (map_items this) p"
  by (simp add: handleTrackFollowed_def map_of_doUpdate)

lemma trackFile_fields [simp]:
  "ignoredFilePaths (trackFile this q) = ignoredFilePaths this"
  by (simp add: trackFile_def split: option.splits)

lemma map_of_trackFile:
  "map_of (map_items this) p = Some item \<Longrightarrow>
   map_of (map_items (trackFile this q)) p = Some item"
proof (cases "map_of (map_items this) q")
  case None
  assume a: "map_of (map_items this) p = Some item"
  with None have "p \<noteq> q" by auto
  with a None show ?thesis
    by (simp add: trackFile_def map_of_handleTrackFollowed update_conv')
next
  case (Some i)
  assume "map_of (map_items this) p = Some item"
  with Some show ?thesis by (simp add: trackFile_def)
qed

lemma distinct_trackFile:
  "distinct (map fst (map_items this)) \<Longrightarrow> distinct (map fst (map_items (trackFile this q)))"
  by (simp add: keys_trackFile)

lemma trackFiles_ignored [simp]:
  "ignoredFilePaths (foldl trackFile this qs) = ignoredFilePaths this"
  by (induction qs rule: rev_induct) simp_all

lemma trackFiles_map_of:
  "map_of (map_items this) p = Some item \<Longrightarrow>
   map_of (map_items (foldl trackFile this qs)) p = Some item"
  by (induction qs rule: rev_induct) (simp_all add: map_of_trackFile)

lemma trackFiles_distinct:
  "distinct (map fst (map_items this)) \<Longrightarrow>
   distinct (map fst (map_items (foldl trackFile this qs)))"
  by (induction qs rule: rev_induct) (simp_all add: distinct_trackFile)

lemma trackPath_ignored [simp]:
  "ignoredFilePaths (trackPath e this q) = ignoredFilePaths this"
  by (simp add: trackPath_def trackFolder_def Let_def split: stat.splits)

lemma trackPath_map_of:
  "map_of (map_items this) p = Some item \<Longrightarrow>
   map_of (map_items (trackPath e this q)) p = Some item"
  by (simp add: trackPath_def trackFolder_def Let_def trackFiles_map_of map_of_trackFile
      split: stat.splits)

lemma trackPath_distinct:
  "distinct (map fst (map_items this)) \<Longrightarrow>
   distinct (map fst (map_items (trackPath e this q)))"
  by (simp add: trackPath_def trackFolder_def Let_def trackFiles_distinct distinct_trackFile
      split: stat.splits)

lemma beFresh_start_ignored [simp]:
  "ignoredFilePaths (beFresh_start e this) = ignoredFilePaths this"
  by (simp add: beFresh_start_def loadStartPath_def split: option.splits)

lemma beFresh_start_map_of:
  "map_of (map_items this) p = Some item \<Longrightarrow>
   map_of (map_items (beFresh_start e this)) p = Some item"
  by (simp add: beFresh_start_def loadStartPath_def trackPath_map_of split: option.splits)

lemma beFresh_start_distinct:
  "distinct (map fst (map_items this)) \<Longrightarrow>
   distinct (map fst (map_items (beFresh_start e this)))"
  by (simp add: beFresh_start_def loadStartPath_def trackPath_distinct split: option.splits)

lemma beFresh_tracked:
  assumes "\<not> allFresh this"
    and "distinct (map fst (map_items this))"
    and "map_of (map_items this) p = Some item"
  shows "map_of (map_items (beFresh e this)) p =
           Some (beFresh_item e (ignoredFilePaths this) p item)"
  using assms
  by (simp add: beFresh_map_of beFresh_start_distinct beFresh_start_map_of)

lemma beFresh_allFresh: "allFresh (beFresh e this)"
  by (cases "allFresh this") (simp_all add: beFresh_def Let_def case_prod_beta)

lemma fresh_settle_request:
  assumes "\<forall>h n. updatePromise item \<noteq> Some (AwaitOnUpdate h n)"
  shows "fresh (settle_item e p (request_item item))"
  using assms
  by (cases "updatePromise item")
     (auto simp: settle_item_def request_item_def split: option.splits UpdatePromise.splits)

text \<open>
  C1, as the code has it. The barrier is \<^verbatim>\<open>beFresh\<close> run to its end with no other event in
  between, from a tracker whose \<^verbatim>\<open>allFresh\<close> is false and whose keys are distinct. Every
  record that is in the map at the call and whose path is not ignored is fresh afterwards,
  provided it was fresh already or has no reload that waits for its \<^verbatim>\<open>onUpdate\<close> hook (such
  a reload is joined, not repeated). Every record that is in the map at the call and whose
  path is ignored is afterwards exactly what it was, fresh or not. \<^verbatim>\<open>allFresh\<close> is true
  afterwards.
\<close>

theorem beFresh_barrier:
  assumes "\<not> allFresh this"
    and "distinct (map fst (map_items this))"
    and "map_of (map_items this) filePath = Some item"
  shows "(filePath \<notin> ignoredFilePaths this
          \<and> (fresh item \<or> (\<forall>h n. updatePromise item \<noteq> Some (AwaitOnUpdate h n))) \<longrightarrow>
            (\<exists>item'. map_of (map_items (beFresh e this)) filePath = Some item' \<and> fresh item'))
       \<and> (filePath \<in> ignoredFilePaths this \<longrightarrow>
            map_of (map_items (beFresh e this)) filePath = Some item)
       \<and> allFresh (beFresh e this)"
  using assms
  by (auto simp: beFresh_tracked beFresh_allFresh beFresh_item_def fresh_settle_request)

subsection \<open>The barrier on the example trackers\<close>

lemma tracked_tracker_reachable: "trackFile pull_tracker ''/x.css'' = tracked_tracker"
  by (simp add: trackFile_def handleTrackFollowed_def pull_tracker_def tracked_tracker_def
      new_item_def emit_def)

lemma ignored_tracker_reachable: "ignore tracked_tracker ''/x.css'' = ignored_tracker"
  by (simp add: ignore_def ignored_tracker_def tracked_tracker_def pull_tracker_def emit_def)

theorem beFresh_barrier_witness:
  "\<not> allFresh tracked_tracker
   \<and> distinct (map fst (map_items tracked_tracker))
   \<and> map_of (map_items tracked_tracker) ''/x.css'' = Some new_item
   \<and> ''/x.css'' \<notin> ignoredFilePaths tracked_tracker
   \<and> updatePromise new_item = None
   \<and> (\<exists>item'. map_of (map_items (beFresh example_env tracked_tracker)) ''/x.css'' = Some item'
         \<and> fresh item')
   \<and> allFresh (beFresh example_env tracked_tracker)
   \<and> \<not> allFresh ignored_tracker
   \<and> distinct (map fst (map_items ignored_tracker))
   \<and> map_of (map_items ignored_tracker) ''/x.css'' = Some new_item
   \<and> ''/x.css'' \<in> ignoredFilePaths ignored_tracker
   \<and> map_of (map_items (beFresh failing_env ignored_tracker)) ''/x.css'' = Some new_item
   \<and> allFresh (beFresh failing_env ignored_tracker)"
  using beFresh_barrier [of tracked_tracker "''/x.css''" new_item example_env]
    beFresh_barrier [of ignored_tracker "''/x.css''" new_item failing_env]
  by (simp add: ignored_tracker_def tracked_tracker_def pull_tracker_def new_item_def)

text \<open>
  C1, as the claim states it, fails for an ignored path: \<open>ignored_tracker\<close> holds one record,
  not fresh, whose path is ignored, and \<^verbatim>\<open>allFresh\<close> is false. After \<^verbatim>\<open>beFresh\<close> the record is
  the same and still not fresh.
\<close>

theorem beFresh_skips_ignored_counterexample:
  "map_of (map_items ignored_tracker) ''/x.css'' = Some new_item
   \<and> ''/x.css'' \<in> ignoredFilePaths ignored_tracker
   \<and> \<not> allFresh ignored_tracker
   \<and> map_of (map_items (beFresh example_env ignored_tracker)) ''/x.css'' = Some new_item
   \<and> \<not> fresh new_item"
  by (simp add: beFresh_def beFresh_step_def doUpdate_def ignored_tracker_def tracked_tracker_def
      pull_tracker_def new_item_def Let_def)

subsection \<open>One reload, awaited\<close>

lemma edited_tracker_reachable: "trackOpenedFile x_tracker ''/x.css'' buffer2 = edited_tracker"
  by (simp add: trackOpenedFile_def handleExpired_def x_tracker_def edited_tracker_def
      pull_tracker_def fresh_item_def opened_item_def buffer2_def updateItem_def emit_def Let_def)

lemma load_failure:
  "readText e p = Inl err \<Longrightarrow> loadDocumentFromFilePath e p = (None, [ConsoleLogError err])"
  by (simp add: loadDocumentFromFilePath_def Let_def)

lemma load_events_quiet:
  "ReadText q \<notin> set (snd (loadDocumentFromFilePath e p))"
  "OnUpdate q \<notin> set (snd (loadDocumentFromFilePath e p))"
  by (simp_all add: loadDocumentFromFilePath_def Let_def split: sum.splits)

lemma map_of_reload:
  "map_of (map_items this) p = Some item \<Longrightarrow> p \<notin> ignoredFilePaths this \<Longrightarrow>
   map_of (map_items (reload e this p)) p = Some (settle_item e p (request_item item))"
  by (simp add: reload_def map_of_awaitUpdatePromise map_of_doUpdate)

lemma trace_reload:
  "map_of (map_items this) p = Some item \<Longrightarrow> p \<notin> ignoredFilePaths this \<Longrightarrow>
   trace (reload e this p) =
     trace this @ request_events p item @ settle_events e p (request_item item)"
  by (simp add: reload_def trace_awaitUpdatePromise trace_doUpdate map_of_doUpdate)

text \<open>
  C7. A record without a document of an opened file, not ignored and with no reload in
  flight, is reloaded while the disk read fails. The call of \<^verbatim>\<open>doUpdate\<close> waits for the
  promise and so returns \<^verbatim>\<open>true\<close>; when the promise has run to its end the record's document
  is \<^verbatim>\<open>null\<close>, \<^verbatim>\<open>fresh\<close> is true and nothing else in the record has changed; the trace has
  grown by the disk read, the logged error, the call of \<^verbatim>\<open>onUpdate\<close> and the log line. No
  function of the reload has an error among its results. \<^verbatim>\<open>beFresh\<close> on such a tracker
  (not all fresh, the record not fresh) ends with the same record and \<^verbatim>\<open>allFresh\<close> true.
\<close>

theorem reload_survives_read_failure:
  assumes "map_of (map_items this) filePath = Some item"
    and "updatePromise item = None"
    and "\<not> (opened item \<and> document item \<noteq> None)"
    and "filePath \<notin> ignoredFilePaths this"
    and "readText e filePath = Inl err"
  shows "snd (doUpdate this filePath)
       \<and> map_of (map_items (reload e this filePath)) filePath =
           Some (item\<lparr>document := None, fresh := True\<rparr>)
       \<and> trace (reload e this filePath) =
           trace this @ [ReadText filePath, ConsoleLogError err, OnUpdate filePath,
                         ConsoleLog (filePath @ '' loaded from file'')]
       \<and> (\<not> allFresh this \<and> distinct (map fst (map_items this)) \<and> \<not> fresh item \<longrightarrow>
            map_of (map_items (beFresh e this)) filePath =
              Some (item\<lparr>document := None, fresh := True\<rparr>)
          \<and> allFresh (beFresh e this))"
proof -
  have r: "request_item item = item\<lparr>updatePromise := Some (AwaitLoad 0)\<rparr>"
    using assms(2,3) by (auto simp: request_item_def)
  have s: "settle_item e filePath (request_item item) = item\<lparr>document := None, fresh := True\<rparr>"
    unfolding r using assms(2)
    by (cases item) (simp add: settle_item_def load_failure [OF assms(5)])
  have re: "request_events filePath item = [ReadText filePath]"
    using assms(2,3) by (auto simp: request_events_def)
  have se: "settle_events e filePath (request_item item) =
            [ConsoleLogError err, OnUpdate filePath, ConsoleLog (filePath @ '' loaded from file'')]"
    by (simp add: r settle_events_def load_failure [OF assms(5)])
  have 1: "snd (doUpdate this filePath)"
    using assms(4) by (simp add: snd_doUpdate)
  have 2: "map_of (map_items (reload e this filePath)) filePath =
           Some (item\<lparr>document := None, fresh := True\<rparr>)"
    using assms(1,4) by (simp add: map_of_reload s)
  have 3: "trace (reload e this filePath) =
           trace this @ [ReadText filePath, ConsoleLogError err, OnUpdate filePath,
                         ConsoleLog (filePath @ '' loaded from file'')]"
    using assms(1,4) by (simp add: trace_reload re se)
  have 4: "map_of (map_items (beFresh e this)) filePath =
              Some (item\<lparr>document := None, fresh := True\<rparr>)"
    if "\<not> allFresh this" "distinct (map fst (map_items this))" "\<not> fresh item"
    using that assms(1,4) by (simp add: beFresh_tracked beFresh_item_def s)
  show ?thesis
    using 1 2 3 4 beFresh_allFresh by blast
qed

theorem reload_survives_read_failure_witness:
  "map_of (map_items tracked_tracker) ''/x.css'' = Some new_item
   \<and> updatePromise new_item = None
   \<and> \<not> (opened new_item \<and> document new_item \<noteq> None)
   \<and> ''/x.css'' \<notin> ignoredFilePaths tracked_tracker
   \<and> readText failing_env ''/x.css'' = Inl ''ENOENT''
   \<and> \<not> allFresh tracked_tracker \<and> distinct (map fst (map_items tracked_tracker))
   \<and> \<not> fresh new_item
   \<and> snd (doUpdate tracked_tracker ''/x.css'')
   \<and> map_of (map_items (reload failing_env tracked_tracker ''/x.css'')) ''/x.css'' =
        Some \<lparr>document = None, version = 0, opened = False, fresh = True, updatePromise = None\<rparr>
   \<and> trace (reload failing_env tracked_tracker ''/x.css'') =
        [ConsoleLog ''/x.css tracked'', OnTrack ''/x.css'', ReadText ''/x.css'',
         ConsoleLogError ''ENOENT'', OnUpdate ''/x.css'', ConsoleLog ''/x.css loaded from file'']
   \<and> map_of (map_items (beFresh failing_env tracked_tracker)) ''/x.css'' =
        Some \<lparr>document = None, version = 0, opened = False, fresh = True, updatePromise = None\<rparr>
   \<and> allFresh (beFresh failing_env tracked_tracker)"
  using reload_survives_read_failure
      [of tracked_tracker "''/x.css''" new_item failing_env "''ENOENT''"]
  by (simp add: tracked_tracker_def pull_tracker_def new_item_def failing_env_def example_env_def)


subsection \<open>Two requests for one path\<close>

lemma resumed_callers:
  assumes "map_of (map_items this) q = Some item"
  shows "snd (getUpdatePromise_updated (getUpdatePromise_loaded e this q) q) =
     (case updatePromise item of
        None \<Rightarrow> 0
      | Some (AwaitLoad n) \<Rightarrow> Suc n
      | Some (AwaitOnUpdate h n) \<Rightarrow> Suc n)"
proof (cases "updatePromise item")
  case None
  with assms show ?thesis
    by (simp add: getUpdatePromise_loaded_def getUpdatePromise_updated_def)
next
  case (Some pr)
  show ?thesis
  proof (cases pr)
    case (AwaitLoad n)
    let ?f = "\<lambda>i. (case fst (loadDocumentFromFilePath e q) of
                None \<Rightarrow> i\<lparr>document := None, fresh := True,
                           updatePromise := Some (AwaitOnUpdate False n)\<rparr>
              | Some d \<Rightarrow> i\<lparr>document := Some d, version := doc_version d, fresh := True,
                             updatePromise := Some (AwaitOnUpdate False n)\<rparr>)"
    have l: "getUpdatePromise_loaded e this q =
             emit (updateItem this q ?f) (snd (loadDocumentFromFilePath e q) @ [OnUpdate q])"
      using assms Some AwaitLoad by (simp add: getUpdatePromise_loaded_eq)
    have i1: "map_of (map_items (getUpdatePromise_loaded e this q)) q = Some (?f item)"
      by (simp add: l map_of_map_entry_same assms)
    have p1: "updatePromise (?f item) = Some (AwaitOnUpdate False n)"
      by (simp split: option.splits)
    show ?thesis
      using Some AwaitLoad by (simp add: getUpdatePromise_updated_eq [OF i1 p1])
  next
    case (AwaitOnUpdate h n)
    have "getUpdatePromise_loaded e this q = this"
      using assms Some AwaitOnUpdate by (simp add: getUpdatePromise_loaded_def)
    then show ?thesis
      using assms Some AwaitOnUpdate by (simp add: getUpdatePromise_updated_eq)
  qed
qed

lemma getUpdatePromise_loaded_full:
  "getUpdatePromise_loaded e this q =
     (case map_of (map_items this) q of
        None \<Rightarrow> this
      | Some item \<Rightarrow> emit (updateItem this q (loaded_item e q)) (loaded_events e q item))"
proof (cases "map_of (map_items this) q")
  case None
  then show ?thesis by (simp add: getUpdatePromise_loaded_def)
next
  case item: (Some item)
  show ?thesis
  proof (cases "\<exists>n. updatePromise item = Some (AwaitLoad n)")
    case True
    then obtain n where n: "updatePromise item = Some (AwaitLoad n)" by blast
    let ?f = "\<lambda>i. (case fst (loadDocumentFromFilePath e q) of
                None \<Rightarrow> i\<lparr>document := None, fresh := True,
                           updatePromise := Some (AwaitOnUpdate False n)\<rparr>
              | Some d \<Rightarrow> i\<lparr>document := Some d, version := doc_version d, fresh := True,
                             updatePromise := Some (AwaitOnUpdate False n)\<rparr>)"
    have "getUpdatePromise_loaded e this q =
          emit (updateItem this q ?f) (snd (loadDocumentFromFilePath e q) @ [OnUpdate q])"
      by (rule getUpdatePromise_loaded_eq [OF item n])
    also have "updateItem this q ?f = updateItem this q (loaded_item e q)"
      by (rule updateItem_cong [OF item]) (simp add: loaded_item_def n)
    finally show ?thesis
      using item n by (simp add: loaded_events_def)
  next
    case False
    then have l: "getUpdatePromise_loaded e this q = this"
      using item
      by (auto simp: getUpdatePromise_loaded_def split: option.splits UpdatePromise.splits)
    have "loaded_item e q item = item"
      using False by (auto simp: loaded_item_def split: option.splits UpdatePromise.splits)
    then have "updateItem this q (loaded_item e q) = this"
      by (rule updateItem_same [OF item])
    moreover have "loaded_events e q item = []"
      using False by (auto simp: loaded_events_def split: option.splits UpdatePromise.splits)
    ultimately show ?thesis
      using item l by simp
  qed
qed

lemma map_of_between_requests:
  assumes "map_of (map_items this) p = Some item" and "p \<notin> ignoredFilePaths this"
  shows "map_of (map_items (between_requests e late this p)) p =
           Some (if late then loaded_item e p (request_item item) else request_item item)"
  using assms
  by (simp add: between_requests_def getUpdatePromise_loaded_full map_of_doUpdate
      map_of_map_entry_same)

lemma trace_between_requests:
  assumes "map_of (map_items this) p = Some item" and "p \<notin> ignoredFilePaths this"
  shows "trace (between_requests e late this p) =
           trace this @ request_events p item @
           (if late then loaded_events e p (request_item item) else [])"
  using assms
  by (simp add: between_requests_def getUpdatePromise_loaded_full map_of_doUpdate trace_doUpdate)

lemma between_requests_ignored [simp]:
  "ignoredFilePaths (between_requests e late this p) = ignoredFilePaths this"
  by (simp add: between_requests_def getUpdatePromise_loaded_full split: option.splits)


lemma request_item_join:
  "updatePromise i = Some pr \<Longrightarrow>
   updatePromise (request_item i) =
     Some (case pr of AwaitLoad n \<Rightarrow> AwaitLoad (Suc n)
                    | AwaitOnUpdate h n \<Rightarrow> AwaitOnUpdate h (Suc n))
   \<and> fresh (request_item i) = fresh i"
  by (cases pr) (simp_all add: request_item_def)

text \<open>
  C2, as the code has it. A record has no reload in flight and \<^verbatim>\<open>doUpdate\<close> is called for
  its path twice, the second time before the promise of the first has resolved: either
  directly after the first call or after the disk read has been answered and \<^verbatim>\<open>onUpdate\<close> is
  pending (\<open>late\<close>), with no other event in between.

  If the path is not ignored, both calls wait for the one promise that the first call
  created and the second call adds nothing to the trace. When the promise has run to its
  end, \<^verbatim>\<open>onUpdate\<close> has been called once; the disk has been read once if the record had no
  document of an opened file and not at all if it had one; both calls are resumed by the
  same resolution, and the record is fresh with its promise field cleared.

  If the path is ignored, both calls return \<^verbatim>\<open>false\<close> at once and the tracker stays as it
  was: no disk read and no hook.
\<close>

theorem two_requests_one_reload:
  assumes "map_of (map_items this) filePath = Some item"
    and "updatePromise item = None"
  shows "(filePath \<notin> ignoredFilePaths this \<longrightarrow>
            snd (doUpdate this filePath)
          \<and> snd (doUpdate (between_requests e late this filePath) filePath)
          \<and> trace (two_requests e late this filePath) =
              trace (between_requests e late this filePath)
          \<and> trace (awaitUpdatePromise e (two_requests e late this filePath) filePath) =
              trace this @
              (if opened item \<and> document item \<noteq> None
               then [OnUpdate filePath, ConsoleLog (filePath @ '' loaded from document'')]
               else ReadText filePath # snd (loadDocumentFromFilePath e filePath) @
                    [OnUpdate filePath, ConsoleLog (filePath @ '' loaded from file'')])
          \<and> count_list
                (new_events this (awaitUpdatePromise e (two_requests e late this filePath) filePath))
                (ReadText filePath) = (if opened item \<and> document item \<noteq> None then 0 else 1)
          \<and> count_list
                (new_events this (awaitUpdatePromise e (two_requests e late this filePath) filePath))
                (OnUpdate filePath) = 1
          \<and> snd (getUpdatePromise_updated
                   (getUpdatePromise_loaded e (two_requests e late this filePath) filePath)
                   filePath) = 2
          \<and> (\<exists>item'. map_of (map_items
                          (awaitUpdatePromise e (two_requests e late this filePath) filePath))
                        filePath = Some item'
                    \<and> fresh item' \<and> updatePromise item' = None))
       \<and> (filePath \<in> ignoredFilePaths this \<longrightarrow>
            doUpdate this filePath = (this, False)
          \<and> between_requests e late this filePath = this
          \<and> doUpdate (between_requests e late this filePath) filePath = (this, False)
          \<and> awaitUpdatePromise e (two_requests e late this filePath) filePath = this)"
proof (cases "filePath \<in> ignoredFilePaths this")
  case True
  have 1: "doUpdate this filePath = (this, False)"
    using True by (rule doUpdate_ignored)
  have l: "getUpdatePromise_loaded e this filePath = this"
    using assms by (simp add: getUpdatePromise_loaded_def)
  have 2: "between_requests e late this filePath = this"
    by (simp add: between_requests_def 1 l)
  have 3: "two_requests e late this filePath = this"
    by (simp add: two_requests_def 2 1)
  have 4: "awaitUpdatePromise e this filePath = this"
    using assms by (simp add: awaitUpdatePromise_def l getUpdatePromise_updated_def)
  show ?thesis
    using True by (simp add: 1 2 3 4)
next
  case False
  let ?b = "between_requests e late this filePath"
  let ?t2 = "two_requests e late this filePath"
  let ?t3 = "awaitUpdatePromise e ?t2 filePath"
  let ?h = "opened item \<and> document item \<noteq> None"
  let ?ib = "if late then loaded_item e filePath (request_item item) else request_item item"
  let ?new = "if ?h then [OnUpdate filePath, ConsoleLog (filePath @ '' loaded from document'')]
              else ReadText filePath # snd (loadDocumentFromFilePath e filePath) @
                   [OnUpdate filePath, ConsoleLog (filePath @ '' loaded from file'')]"
  have r: "request_item item =
            (if ?h then item\<lparr>fresh := True, updatePromise := Some (AwaitOnUpdate True 0)\<rparr>
             else item\<lparr>updatePromise := Some (AwaitLoad 0)\<rparr>)"
    using assms(2) by (auto simp: request_item_def)
  have mb: "map_of (map_items ?b) filePath = Some ?ib"
    using assms(1) False by (rule map_of_between_requests)
  have pb: "updatePromise ?ib =
            Some (if ?h then AwaitOnUpdate True 0
                  else if late then AwaitOnUpdate False 0 else AwaitLoad 0)"
    by (auto simp: r loaded_item_def split: option.splits)
  have fb: "fresh ?ib" if "?h \<or> late"
    using that by (auto simp: r loaded_item_def split: option.splits)
  have p2: "updatePromise (request_item ?ib) =
            Some (if ?h then AwaitOnUpdate True 1
                  else if late then AwaitOnUpdate False 1 else AwaitLoad 1)"
    using request_item_join [OF pb] by simp
  have f2: "fresh (request_item ?ib)" if "?h \<or> late"
    using request_item_join [OF pb] fb [OF that] by simp
  have e1: "request_events filePath item = (if ?h then [OnUpdate filePath] else [ReadText filePath])"
    using assms(2) by (simp add: request_events_def)
  have e2: "request_events filePath ?ib = []"
    by (simp add: request_events_def pb)
  have tb: "trace ?b = trace this @ request_events filePath item @
              (if late then loaded_events e filePath (request_item item) else [])"
    using assms(1) False by (rule trace_between_requests)
  have nb: "filePath \<notin> ignoredFilePaths ?b"
    using False by simp
  have m2: "map_of (map_items ?t2) filePath = Some (request_item ?ib)"
    using nb by (simp add: two_requests_def map_of_doUpdate mb)
  have t2: "trace ?t2 = trace ?b"
    using nb by (simp add: two_requests_def trace_doUpdate mb e2)
  have le: "loaded_events e filePath (request_item item) =
            (if ?h then [] else snd (loadDocumentFromFilePath e filePath) @ [OnUpdate filePath])"
    by (auto simp: r loaded_events_def)
  have se: "(if late then loaded_events e filePath (request_item item) else []) @
            settle_events e filePath (request_item ?ib) =
            (if ?h then [ConsoleLog (filePath @ '' loaded from document'')]
             else snd (loadDocumentFromFilePath e filePath) @
                  [OnUpdate filePath, ConsoleLog (filePath @ '' loaded from file'')])"
    by (auto simp: le settle_events_def p2)
  have t3: "trace ?t3 = trace this @ ?new"
  proof -
    have "trace ?t3 = trace this @ request_events filePath item @
            ((if late then loaded_events e filePath (request_item item) else []) @
             settle_events e filePath (request_item ?ib))"
      by (simp add: trace_awaitUpdatePromise m2 t2 tb)
    then show ?thesis
      unfolding se e1 by simp
  qed
  have n: "new_events this ?t3 = ?new"
    by (simp add: new_events_def t3)
  have c1: "count_list (new_events this ?t3) (ReadText filePath) = (if ?h then 0 else 1)"
    unfolding n by (simp add: count_list_append load_events_quiet)
  have c2: "count_list (new_events this ?t3) (OnUpdate filePath) = 1"
    unfolding n by (simp add: count_list_append load_events_quiet)
  have w: "snd (getUpdatePromise_updated (getUpdatePromise_loaded e ?t2 filePath) filePath) = 2"
    unfolding resumed_callers [OF m2] by (simp add: p2)
  have f: "map_of (map_items ?t3) filePath = Some (settle_item e filePath (request_item ?ib))"
    by (simp add: map_of_awaitUpdatePromise m2)
  have g: "fresh (settle_item e filePath (request_item ?ib))
         \<and> updatePromise (settle_item e filePath (request_item ?ib)) = None"
    using f2 by (auto simp: settle_item_def p2 split: option.splits)
  have s1: "snd (doUpdate this filePath)"
    using False by (simp add: snd_doUpdate)
  have s2: "snd (doUpdate ?b filePath)"
    using nb by (simp add: snd_doUpdate)
  show ?thesis
    using False s1 s2 t2 t3 c1 c2 w f g by simp
qed


theorem two_requests_one_reload_witness:
  "map_of (map_items tracked_tracker) ''/x.css'' = Some new_item
   \<and> updatePromise new_item = None
   \<and> ''/x.css'' \<notin> ignoredFilePaths tracked_tracker
   \<and> snd (doUpdate tracked_tracker ''/x.css'')
   \<and> snd (doUpdate (between_requests example_env False tracked_tracker ''/x.css'') ''/x.css'')
   \<and> snd (doUpdate (between_requests example_env True tracked_tracker ''/x.css'') ''/x.css'')
   \<and> trace (awaitUpdatePromise example_env
               (two_requests example_env False tracked_tracker ''/x.css'') ''/x.css'') =
        [ConsoleLog ''/x.css tracked'', OnTrack ''/x.css'', ReadText ''/x.css'',
         OnUpdate ''/x.css'', ConsoleLog ''/x.css loaded from file'']
   \<and> trace (awaitUpdatePromise example_env
               (two_requests example_env True tracked_tracker ''/x.css'') ''/x.css'') =
        [ConsoleLog ''/x.css tracked'', OnTrack ''/x.css'', ReadText ''/x.css'',
         OnUpdate ''/x.css'', ConsoleLog ''/x.css loaded from file'']
   \<and> snd (getUpdatePromise_updated
            (getUpdatePromise_loaded example_env
               (two_requests example_env True tracked_tracker ''/x.css'') ''/x.css'')
            ''/x.css'') = 2
   \<and> map_of (map_items ignored_tracker) ''/x.css'' = Some new_item
   \<and> ''/x.css'' \<in> ignoredFilePaths ignored_tracker
   \<and> doUpdate ignored_tracker ''/x.css'' = (ignored_tracker, False)
   \<and> doUpdate (between_requests example_env True ignored_tracker ''/x.css'') ''/x.css'' =
        (ignored_tracker, False)"
  using two_requests_one_reload [of tracked_tracker "''/x.css''" new_item example_env False]
    two_requests_one_reload [of tracked_tracker "''/x.css''" new_item example_env True]
    two_requests_one_reload [of ignored_tracker "''/x.css''" new_item example_env True]
  by (simp add: ignored_tracker_def tracked_tracker_def pull_tracker_def new_item_def
      example_env_def loadDocumentFromFilePath_def)

text \<open>
  C2, as the claim states it, fails. For the ignored path of \<open>ignored_tracker\<close> two
  requests and the wait leave the tracker as it was: no disk read and no call of
  \<^verbatim>\<open>onUpdate\<close>. For the opened and edited file of \<open>edited_tracker\<close> the two requests call
  \<^verbatim>\<open>onUpdate\<close> once and read nothing from disk, the content being the buffer's.
\<close>

theorem two_requests_counterexample:
  "map_of (map_items ignored_tracker) ''/x.css'' = Some new_item
   \<and> doUpdate ignored_tracker ''/x.css'' = (ignored_tracker, False)
   \<and> awaitUpdatePromise example_env
        (two_requests example_env False ignored_tracker ''/x.css'') ''/x.css'' = ignored_tracker
   \<and> count_list (trace ignored_tracker) (ReadText ''/x.css'') = 0
   \<and> count_list (trace ignored_tracker) (OnUpdate ''/x.css'') = 0
   \<and> map_of (map_items edited_tracker) ''/x.css'' = Some (opened_item\<lparr>fresh := False\<rparr>)
   \<and> trace (awaitUpdatePromise example_env
               (two_requests example_env False edited_tracker ''/x.css'') ''/x.css'') =
        trace edited_tracker @ [OnUpdate ''/x.css'', ConsoleLog ''/x.css loaded from document'']
   \<and> count_list
        (trace (awaitUpdatePromise example_env
                  (two_requests example_env False edited_tracker ''/x.css'') ''/x.css''))
        (ReadText ''/x.css'') = 0"
  by (simp add: two_requests_def between_requests_def awaitUpdatePromise_def doUpdate_def
      getUpdatePromise_def getUpdatePromise_loaded_def getUpdatePromise_updated_def
      ignored_tracker_def tracked_tracker_def edited_tracker_def pull_tracker_def new_item_def
      opened_item_def fresh_item_def buffer2_def updateItem_def emit_def Let_def)

subsection \<open>Steps without a reload of an ignored path\<close>


















subsection \<open>Who takes a path out of the ignored set\<close>

lemma handleExpired_ignored [simp]:
  "ignoredFilePaths (handleExpired this q) = ignoredFilePaths this"
  by (simp add: handleExpired_def split: option.splits)

lemma trackOpenedFile_ignored [simp]:
  "ignoredFilePaths (trackOpenedFile this q doc) = ignoredFilePaths this"
  by (simp add: trackOpenedFile_def Let_def split: option.splits)

lemma reTrackFile_ignored [simp]:
  "ignoredFilePaths (reTrackFile this q) = ignoredFilePaths this"
  by (simp add: reTrackFile_def split: option.splits)

lemma unTrackOpenedFile_ignored [simp]:
  "ignoredFilePaths (unTrackOpenedFile this q) = ignoredFilePaths this"
  by (simp add: unTrackOpenedFile_def split: option.splits)

lemma handlers_ignored [simp]:
  "ignoredFilePaths (onDocumentOpenOrContentChanged e this doc) = ignoredFilePaths this"
  "ignoredFilePaths (onDocumentSaved e this doc) = ignoredFilePaths this"
  "ignoredFilePaths (onDocumentClosed e this doc) = ignoredFilePaths this"
  by (simp_all add: onDocumentOpenOrContentChanged_def onDocumentSaved_def onDocumentClosed_def
      split: option.splits)

lemma beFresh_ignored [simp]: "ignoredFilePaths (beFresh e this) = ignoredFilePaths this"
proof (cases "allFresh this")
  case True
  then show ?thesis by (simp add: beFresh_def)
next
  case False
  then show ?thesis
    by (simp add: beFresh_eq Let_def await_loop_ignored beFresh_loop_ignored)
qed







lemma push_ignored_tracker_reachable:
  "trackFile (ignore (pull_tracker\<lparr>updateImmediately := True\<rparr>) ''/x.css'') ''/x.css'' =
     push_ignored_tracker"
  by (simp add: trackFile_def handleTrackFollowed_def doUpdate_def ignore_def
      push_ignored_tracker_def pull_tracker_def new_item_def emit_def)

subsection \<open>The keys of the map stay distinct\<close>

text \<open>A JavaScript \<^verbatim>\<open>Map\<close> holds a key once. The association list of the model starts
  empty and every handler keeps its keys distinct, which is the hypothesis of the theorems
  above that count records or events.\<close>

lemma keys_handleExpired:
  "map fst (map_items (handleExpired this p)) = map fst (map_items this)"
  by (simp add: handleExpired_def keys_doUpdate keys_map_entry split: option.splits)

lemma keys_reTrackFile:
  "distinct (map fst (map_items this)) \<Longrightarrow> distinct (map fst (map_items (reTrackFile this p)))"
  by (simp add: reTrackFile_def keys_doUpdate keys_handleExpired keys_map_entry distinct_trackFile
      split: option.splits)

lemma keys_trackOpenedFile:
  "distinct (map fst (map_items this)) \<Longrightarrow>
   distinct (map fst (map_items (trackOpenedFile this p doc)))"
  by (simp add: trackOpenedFile_def Let_def keys_handleExpired keys_map_entry
      keys_handleTrackFollowed distinct_update split: option.splits)

lemma keys_unTrackOpenedFile:
  "map fst (map_items (unTrackOpenedFile this p)) = map fst (map_items this)"
  by (simp add: unTrackOpenedFile_def keys_map_entry split: option.splits)

lemma distinct_unTrackPath:
  "distinct (map fst (map_items this)) \<Longrightarrow> distinct (map fst (map_items (unTrackPath this d)))"
  by (simp add: unTrackPath_map_items distinct_map_filter)

lemma keys_beFresh:
  "map fst (map_items (beFresh e this)) = map fst (map_items (if allFresh this then this else beFresh_start e this))"
  by (simp add: beFresh_eq Let_def await_loop_keys beFresh_loop_keys) (simp add: beFresh_def)

lemma distinct_beFresh:
  "distinct (map fst (map_items this)) \<Longrightarrow> distinct (map fst (map_items (beFresh e this)))"
  by (simp add: keys_beFresh beFresh_start_distinct)

lemma distinct_onWatchedPathChanged_step:
  "distinct (map fst (map_items this)) \<Longrightarrow>
   distinct (map fst (map_items (onWatchedPathChanged_step e this change)))"
  by (simp add: onWatchedPathChanged_step_def Let_def trackPath_distinct keys_reTrackFile
      distinct_unTrackPath split: option.splits FileChangeType.splits)

lemma distinct_onWatchedPathChanged:
  "distinct (map fst (map_items this)) \<Longrightarrow>
   distinct (map fst (map_items (onWatchedPathChanged e this changes)))"
  unfolding onWatchedPathChanged_def
  by (induction changes rule: rev_induct) (simp_all add: distinct_onWatchedPathChanged_step)

lemma constructor_empty: "constructor e options = Inr this \<Longrightarrow> map_items this = []"
  by (auto simp: constructor_def Let_def emit_def split: if_splits option.splits)

lemma distinct_keys_invariant:
  assumes "distinct (map fst (map_items this))"
  shows "distinct (map fst (map_items (onDocumentOpenOrContentChanged e this doc)))"
    and "distinct (map fst (map_items (onDocumentSaved e this doc)))"
    and "distinct (map fst (map_items (onDocumentClosed e this doc)))"
    and "distinct (map fst (map_items (onWatchedPathChanged e this changes)))"
    and "distinct (map fst (map_items (beFresh e this)))"
    and "distinct (map fst (map_items (unTrackPath this d)))"
    and "distinct (map fst (map_items (ignore this p)))"
    and "distinct (map fst (map_items (notIgnore this p)))"
  using assms
  by (simp_all add: onDocumentOpenOrContentChanged_def onDocumentSaved_def onDocumentClosed_def
      keys_trackOpenedFile keys_doUpdate keys_unTrackOpenedFile distinct_onWatchedPathChanged
      distinct_beFresh distinct_unTrackPath ignore_def notIgnore_def split: option.splits)

subsection \<open>The cached flag\<close>

text \<open>With \<^verbatim>\<open>allFresh\<close> true \<^verbatim>\<open>beFresh\<close> does nothing, and \<^verbatim>\<open>notIgnore\<close> does not clear the flag:
  the record of \<open>push_ignored_tracker\<close>, taken out of the ignored set, is not fresh and
  \<^verbatim>\<open>beFresh\<close> leaves it so.\<close>

lemma beFresh_cached: "allFresh this \<Longrightarrow> beFresh e this = this"
  by (simp add: beFresh_def)

lemma notIgnore_keeps_allFresh:
  "allFresh (notIgnore this p) = allFresh this
   \<and> map_items (notIgnore this p) = map_items this
   \<and> p \<notin> ignoredFilePaths (notIgnore this p)"
  by (simp add: notIgnore_def)

lemma restored_record_stays_stale:
  "map_of (map_items (notIgnore push_ignored_tracker ''/x.css'')) ''/x.css'' = Some new_item
   \<and> ''/x.css'' \<notin> ignoredFilePaths (notIgnore push_ignored_tracker ''/x.css'')
   \<and> beFresh example_env (notIgnore push_ignored_tracker ''/x.css'') =
        notIgnore push_ignored_tracker ''/x.css''"
  by (simp add: beFresh_def notIgnore_def push_ignored_tracker_def pull_tracker_def)

end
